theory Spec2Isabelle
  imports Main "HOL-Library.AList" "HOL-Library.Sublist"
begin

section \<open>Data model of the debate backend\<close>

text \<open>
  The development follows \<^verbatim>\<open>src/backend/graph_converter.py\<close>. Python values are
  modelled as follows.
  \<^item> A \<^verbatim>\<open>str\<close> is a \<^typ>\<open>string\<close>; a character is read as a code point below 256.
  \<^item> A dictionary that is only looked up is a map; a dictionary whose iteration order
    is observed (\<^verbatim>\<open>labels\<close>, a decoded JSON object) is an association list kept
    with distinct keys by \<^const>\<open>AList.update\<close>, which overwrites in place and appends
    a new key at the end, as a Python \<^verbatim>\<open>dict\<close> does.
  \<^item> An exception is a value of \<open>py_error\<close>; a function that can raise returns a sum
    with the exception on the left. \<open>ValueError\<close> stands for a \<^verbatim>\<open>ValueError\<close> that is no
    \<^verbatim>\<open>JSONDecodeError\<close> (which is a subclass of it), and \<open>BackendError\<close> for any
    exception of the model client. \<open>OutsideModel\<close> is no Python exception: it marks the
    replies on which this development does not say what the program does, those with a
    JSON escape for a code point from 256 on.
  \<^item> What the interpreter contributes is a parameter, the record \<open>py_env\<close> below.
\<close>

datatype py_error =
  KeyError | IndexError | AttributeError | JSONDecodeError | ValueError | RecursionError
  | BackendError | OutsideModel

text \<open>
  The interpreter, as far as the program depends on it.
  \<^item> \<open>max_nesting\<close> is the number of JSON containers (objects and arrays), one inside
    the other, that the decoder can enter; on entering one more it raises
    \<^verbatim>\<open>RecursionError\<close>. The number depends on the recursion limit of the interpreter and
    on the depth of the call stack.
  \<^item> \<open>max_str_digits\<close> is \<^verbatim>\<open>sys.get_int_max_str_digits()\<close>, the digit limit of the
    conversion of a string to an integer, and 0 where there is no limit.
  \<^item> \<open>float_str w\<close> is \<^verbatim>\<open>str(float(w))\<close> for the lexeme \<open>w\<close> of a JSON number with a
    fraction or an exponent: the built-in conversion of floats is not code of this
    repository.
\<close>

record py_env =
  max_nesting :: nat
  max_str_digits :: nat
  float_str :: "string \<Rightarrow> string"

text \<open>
  An interpreter for the examples. Its decoder can enter 1000 containers (under the
  default recursion limit of 1000 an interpreter can enter fewer), its digit limit is
  the default of 4300, and it prints a float as its lexeme, which is what Python prints
  for the two lexemes with a fraction that the examples use, \<^verbatim>\<open>2.5\<close> and \<^verbatim>\<open>3.5\<close>.
\<close>

definition sample_env :: py_env where
  "sample_env = \<lparr>max_nesting = 1000, max_str_digits = 4300, float_str = (\<lambda>w. w)\<rparr>"

text \<open>
  A node of the configuration: \<^verbatim>\<open>node["id"]\<close>, \<^verbatim>\<open>node["label"]\<close> and the optional
  \<^verbatim>\<open>node.get("systemPrompt")\<close>. The sampling temperature only configures the model
  client and is left out.
\<close>

record node =
  node_id :: string
  node_label :: string
  node_systemPrompt :: "string option"

text \<open>
  An edge of the configuration. Each field is read with \<^verbatim>\<open>edge.get\<close>, so each may be
  absent (\<open>None\<close>).
\<close>

record edge =
  edge_from :: "string option"
  edge_to :: "string option"
  edge_direction :: "string option"

type_synonym neighbor_map = "string \<rightharpoonup> string list"

section \<open>Topology resolver\<close>

text \<open>Python truthiness of an optional string: \<^verbatim>\<open>not x\<close> holds for \<^verbatim>\<open>None\<close> and for \<^verbatim>\<open>""\<close>.\<close>

fun py_not :: "string option \<Rightarrow> bool" where
  "py_not None = True"
| "py_not (Some s) = (s = [])"

text \<open>
  \<^verbatim>\<open>add_edge\<close>, the closure of \<^verbatim>\<open>build_neighbor_maps\<close>. The two dictionaries it
  mutates are passed in and returned. A subscript \<^verbatim>\<open>outgoing[sender]\<close> on a missing key
  raises \<^verbatim>\<open>KeyError\<close>.
\<close>

definition add_edge ::
  "string \<Rightarrow> string \<Rightarrow> neighbor_map \<times> neighbor_map \<Rightarrow> py_error + neighbor_map \<times> neighbor_map"
where
  "add_edge sender receiver st =
     (case st of (outgoing, incoming) \<Rightarrow>
        if outgoing sender = None \<or> outgoing receiver = None then Inr (outgoing, incoming)
        else
          (case outgoing sender of
             None \<Rightarrow> Inl KeyError
           | Some os \<Rightarrow>
               let outgoing' =
                     (if receiver \<notin> set os then outgoing(sender \<mapsto> os @ [receiver])
                      else outgoing)
               in (case incoming receiver of
                     None \<Rightarrow> Inl KeyError
                   | Some ins \<Rightarrow>
                       Inr (outgoing',
                            if sender \<notin> set ins then incoming(receiver \<mapsto> ins @ [sender])
                            else incoming))))"

text \<open>The body of the loop \<^verbatim>\<open>for edge in edges\<close>.\<close>

definition process_edge ::
  "edge \<Rightarrow> neighbor_map \<times> neighbor_map \<Rightarrow> py_error + neighbor_map \<times> neighbor_map"
where
  "process_edge e st =
     (let direction = (case edge_direction e of None \<Rightarrow> ''bidirectional'' | Some d \<Rightarrow> d);
          from_id = edge_from e;
          to_id = edge_to e
      in if py_not from_id \<or> py_not to_id then Inr st
         else if direction = ''a_to_b'' then add_edge (the from_id) (the to_id) st
         else if direction = ''b_to_a'' then add_edge (the to_id) (the from_id) st
         else if direction = ''bidirectional'' then
           (case add_edge (the from_id) (the to_id) st of
              Inl err \<Rightarrow> Inl err
            | Inr st' \<Rightarrow> add_edge (the to_id) (the from_id) st')
         else Inr st)"

fun process_edges ::
  "edge list \<Rightarrow> neighbor_map \<times> neighbor_map \<Rightarrow> py_error + neighbor_map \<times> neighbor_map"
where
  "process_edges [] st = Inr st"
| "process_edges (e # es) st =
     (case process_edge e st of Inl err \<Rightarrow> Inl err | Inr st' \<Rightarrow> process_edges es st')"

text \<open>The comprehension \<^verbatim>\<open>{node["id"]: [] for node in nodes}\<close>.\<close>

fun empty_lists :: "node list \<Rightarrow> neighbor_map" where
  "empty_lists [] = Map.empty"
| "empty_lists (n # ns) = (empty_lists ns)(node_id n \<mapsto> [])"

definition build_neighbor_maps ::
  "node list \<Rightarrow> edge list \<Rightarrow> py_error + neighbor_map \<times> neighbor_map"
where
  "build_neighbor_maps nodes edges = process_edges edges (empty_lists nodes, empty_lists nodes)"

text \<open>The lookup \<^verbatim>\<open>outgoing.get(node_id, [])\<close> of the scheduler.\<close>

definition neighbors_of :: "neighbor_map \<Rightarrow> string \<Rightarrow> string list" where
  "neighbors_of m k = (case m k of None \<Rightarrow> [] | Some ns \<Rightarrow> ns)"

text \<open>
  An edge that the resolver can use: both endpoints present, non-empty and among the
  given ids. Every other edge is called malformed below.
\<close>

definition edge_known :: "string set \<Rightarrow> edge \<Rightarrow> bool" where
  "edge_known ids e =
     (\<not> py_not (edge_from e) \<and> \<not> py_not (edge_to e) \<and>
      the (edge_from e) \<in> ids \<and> the (edge_to e) \<in> ids)"

text \<open>
  The invariant of the edge loop: both dictionaries have the node ids as keys, and every
  neighbor list is duplicate-free and holds node ids only.
\<close>

definition neighbor_inv :: "string set \<Rightarrow> neighbor_map \<times> neighbor_map \<Rightarrow> bool" where
  "neighbor_inv ids st =
     (dom (fst st) = ids \<and> dom (snd st) = ids \<and>
      (\<forall>k ns. fst st k = Some ns \<longrightarrow> distinct ns \<and> set ns \<subseteq> ids) \<and>
      (\<forall>k ns. snd st k = Some ns \<longrightarrow> distinct ns \<and> set ns \<subseteq> ids))"

section \<open>Python string operations\<close>

text \<open>
  \<^verbatim>\<open>str.isspace\<close> on one character, which is also the class \<^verbatim>\<open>\s\<close> of \<^verbatim>\<open>re\<close> on a
  \<^verbatim>\<open>str\<close> pattern and what \<^verbatim>\<open>str.strip()\<close> removes: below 256 these are the code
  points 9 to 13, 28 to 32, 133 and 160.
\<close>

definition py_isspace :: "char \<Rightarrow> bool" where
  "py_isspace c =
     (c \<in> set [CHR 0x09, CHR 0x0A, CHR 0x0B, CHR 0x0C, CHR 0x0D, CHR 0x1C, CHR 0x1D,
                CHR 0x1E, CHR 0x1F, CHR 0x20, CHR 0x85, CHR 0xA0])"

definition py_strip :: "string \<Rightarrow> string" where
  "py_strip s = rev (dropWhile py_isspace (rev (dropWhile py_isspace s)))"

text \<open>
  \<^verbatim>\<open>str.lower\<close>: below 256 the upper-case letters are \<open>A\<close> to \<open>Z\<close> and the code points
  192 to 222 without 215; the lower-case letter is 32 higher, which sets bit 5.
\<close>

definition py_isupper :: "char \<Rightarrow> bool" where
  "py_isupper c =
     (let n = (of_char c :: nat)
      in (65 \<le> n \<and> n \<le> 90) \<or> (192 \<le> n \<and> n \<le> 222 \<and> n \<noteq> 215))"

fun py_lower_char :: "char \<Rightarrow> char" where
  "py_lower_char (Char b0 b1 b2 b3 b4 b5 b6 b7) =
     (if py_isupper (Char b0 b1 b2 b3 b4 b5 b6 b7) then Char b0 b1 b2 b3 b4 True b6 b7
      else Char b0 b1 b2 b3 b4 b5 b6 b7)"

definition py_lower :: "string \<Rightarrow> string" where
  "py_lower s = map py_lower_char s"

text \<open>\<^verbatim>\<open>sep.join(xs)\<close>.\<close>

fun py_join :: "string \<Rightarrow> string list \<Rightarrow> string" where
  "py_join sep [] = []"
| "py_join sep [x] = x"
| "py_join sep (x # y # ys) = x @ sep @ py_join sep (y # ys)"

text \<open>\<^verbatim>\<open>s.find(c)\<close> for a one-character \<open>c\<close>: the first index of \<open>c\<close>, or \<open>-1\<close>.\<close>

fun py_find :: "char \<Rightarrow> string \<Rightarrow> int" where
  "py_find c [] = -1"
| "py_find c (x # xs) =
     (if x = c then 0 else (let r = py_find c xs in if r = -1 then -1 else r + 1))"

text \<open>\<^verbatim>\<open>labels.get(nid, nid)\<close> on the ordered dictionary \<^verbatim>\<open>labels\<close>.\<close>

definition label_of :: "(string \<times> string) list \<Rightarrow> string \<Rightarrow> string" where
  "label_of labels nid = (case map_of labels nid of None \<Rightarrow> nid | Some l \<Rightarrow> l)"

section \<open>Prompt builder\<close>

text \<open>The instruction block that \<open>build_system_prompt\<close> appends in round 1.\<close>

definition round1_instructions :: string where
  \<open>round1_instructions = ''\<newline>\<newline>After your full response, output your position/conclusion in JSON format:\<newline>\<newline>SUMMARY_JSON:\<newline>{"position": "Your brief conclusion in 3-8 words"}\<newline>\<newline>Example:\<newline>SUMMARY_JSON:\<newline>{"position": "AI is beneficial for humanity"}\<newline>''\<close>

text \<open>
  The f-string of the later rounds, for the non-empty list \<open>neighbor_names\<close>, whose first
  element is \<open>n0\<close> and whose tail is \<open>rest\<close>. The second name of the worked example is
  \<^verbatim>\<open>neighbor_names[1] if len(neighbor_names) > 1 else neighbor_names[0]\<close>.
\<close>

definition later_instructions :: "string \<Rightarrow> string list \<Rightarrow> string" where
  \<open>later_instructions n0 rest =
     (let neighbor_names = n0 # rest;
          neighbor_list = py_join ''", "'' neighbor_names;
          comments_example =
            py_join '', '' (map (\<lambda>name. ''"'' @ name @ ''": "Brief comment"'') (take 2 neighbor_names))
      in ''\<newline>\<newline>After your full response, output your position and comments in JSON format:\<newline>\<newline>SUMMARY_JSON:\<newline>{"position": "Your brief conclusion in 3-8 words", "comments": {''
         @ comments_example
         @ ''}}\<newline>\<newline>Example:\<newline>SUMMARY_JSON:\<newline>{"position": "AI needs regulation", "comments": {"''
         @ n0
         @ ''": "I agree with your risk analysis", "''
         @ (case rest of [] \<Rightarrow> n0 | n1 # _ \<Rightarrow> n1)
         @ ''": "However, your timeline is too pessimistic"}}\<newline>\<newline>Your neighbors are: ''
         @ neighbor_list
         @ ''. Provide exactly one comment per neighbor.'')\<close>

text \<open>The first two statements of \<open>build_system_prompt\<close>: the base text.\<close>

definition prompt_base :: "string \<Rightarrow> string" where
  "prompt_base custom_prompt =
     (if custom_prompt \<noteq> [] then custom_prompt
      else ''You are a participant in a multi-agent debate.'')
     @ ''\<newline>\<newline>Keep your response concise.''"

definition build_system_prompt ::
  "string \<Rightarrow> string list \<Rightarrow> (string \<times> string) list \<Rightarrow> int \<Rightarrow> string"
where
  "build_system_prompt custom_prompt outgoing_neighbors labels round_num =
     (let base = prompt_base custom_prompt
      in if round_num = 1 then base @ round1_instructions
         else
           (case map (label_of labels) outgoing_neighbors of
              [] \<Rightarrow> base
            | n0 # rest \<Rightarrow> base @ later_instructions n0 rest))"

definition build_initial_prompt :: "string \<Rightarrow> string" where
  \<open>build_initial_prompt question =
     ''Let's have a thoughtful debate about the following topic:\<newline>\<newline>"'' @ question
     @ ''"\<newline>\<newline>Share your perspective concisely.''\<close>

definition build_followup_prompt :: "string \<Rightarrow> string list \<Rightarrow> int \<Rightarrow> int \<Rightarrow> string" where
  "build_followup_prompt question neighbor_responses round_num max_round =
     (if neighbor_responses \<noteq> [] then
        (let neighbor_block =
               py_join ''\<newline>'' (map (\<lambda>resp. ''One agent solution: '' @ resp) neighbor_responses)
         in ''These are the solutions to the problem from other agents:\<newline>''
            @ neighbor_block @ ''\<newline>\<newline>''
            @ ''Using the solutions from other agents as additional information,\<newline>''
            @ ''can you provide your answer to the problem?\<newline>''
            @ ''The original problem is '' @ question @ ''\<newline>'')
      else
        ''There are no solutions from other agents yet.\<newline>''
        @ ''Can you provide your answer to the problem?\<newline>''
        @ ''The original problem is '' @ question @ ''\<newline>'')"

text \<open>
  The loop of \<open>run_debate\<close> that gathers the previous-round texts of the incoming
  neighbors (lines 339 to 344); \<open>acc\<close> is the list \<^verbatim>\<open>neighbor_responses\<close>.
\<close>

fun gather_responses ::
  "(string \<times> string) list \<Rightarrow> (string \<rightharpoonup> string) \<Rightarrow> string list \<Rightarrow> string list \<Rightarrow> string list"
where
  "gather_responses labels prev_round [] acc = acc"
| "gather_responses labels prev_round (neighbor_id # ids) acc =
     (case prev_round neighbor_id of
        None \<Rightarrow> gather_responses labels prev_round ids acc
      | Some prev_text \<Rightarrow>
          if prev_text = [] then gather_responses labels prev_round ids acc
          else gather_responses labels prev_round ids
                 (acc @ [label_of labels neighbor_id @ '': '' @ prev_text]))"

text \<open>
  The user turn of a node (lines 334 to 345). \<open>responses_by_round\<close> maps a round number
  to that round's dictionary of main texts.
\<close>

definition user_prompt ::
  "string \<Rightarrow> (string \<times> string) list \<Rightarrow> neighbor_map \<Rightarrow> (int \<rightharpoonup> (string \<rightharpoonup> string)) \<Rightarrow>
   int \<Rightarrow> int \<Rightarrow> string \<Rightarrow> string"
where
  "user_prompt question labels incoming responses_by_round round_num rounds nid =
     (if round_num = 1 then build_initial_prompt question
      else
        (let prev_round =
               (case responses_by_round (round_num - 1) of None \<Rightarrow> Map.empty | Some d \<Rightarrow> d);
             neighbor_ids = neighbors_of incoming nid;
             neighbor_responses = gather_responses labels prev_round neighbor_ids []
         in build_followup_prompt question neighbor_responses round_num rounds))"

section \<open>The JSON decoder of the standard library\<close>

text \<open>
  \<^verbatim>\<open>json.loads\<close> is library code; the parser calls it on a string that starts with an
  opening brace. The decoder reads its input once from left to right and raises at the
  first defect it meets. It is modelled as a lexer, which cuts the string into tokens
  and raises nothing, and a checker that reads the tokens in their order, builds the
  value and raises. A number is kept as its lexeme; a decoded object is the ordered
  dictionary Python builds (a repeated key keeps its first place and its last value).
\<close>

datatype json =
  JNull | JBool bool | JInt string | JFloat string | JString string
  | JArray "json list" | JObject "(string \<times> json) list"

text \<open>
  \<open>TWord\<close> is a maximal run of characters that are no white space, punctuation or
  quote: a number or a literal, or a defect. \<open>TBadString\<close> is a string literal that the
  decoder rejects while it scans it, with its exception.
\<close>

datatype token =
  TLBrace | TRBrace | TLBracket | TRBracket | TComma | TColon
  | TString string | TWord string | TBadString py_error

definition is_digit :: "char \<Rightarrow> bool" where
  "is_digit c = (c \<in> set ''0123456789'')"

text \<open>
  The number at the head of a string, as the decoder matches it: the integer part
  \<^verbatim>\<open>0|[1-9]\d*\<close>, then a fraction \<^verbatim>\<open>\.\d+\<close> if there is one, then an exponent
  \<^verbatim>\<open>[eE][-+]?\d+\<close> if there is one. Each function returns the part and the rest.
\<close>

definition scan_int :: "string \<Rightarrow> (string \<times> string) option" where
  "scan_int s =
     (case s of
        [] \<Rightarrow> None
      | c # r \<Rightarrow>
          if c = CHR ''0'' then Some ([c], r)
          else if is_digit c then Some (c # takeWhile is_digit r, dropWhile is_digit r)
          else None)"

definition scan_frac :: "string \<Rightarrow> string \<times> string" where
  "scan_frac s =
     (case s of
        c # d # r \<Rightarrow>
          if c = CHR ''.'' \<and> is_digit d then (c # d # takeWhile is_digit r, dropWhile is_digit r)
          else ([], s)
      | _ \<Rightarrow> ([], s))"

definition scan_exp :: "string \<Rightarrow> string \<times> string" where
  "scan_exp s =
     (case s of
        [] \<Rightarrow> ([], s)
      | c # r \<Rightarrow>
          if c = CHR ''e'' \<or> c = CHR ''E'' then
            (let sign = (case r of
                           [] \<Rightarrow> []
                         | x # t \<Rightarrow> if x = CHR ''+'' \<or> x = CHR ''-'' then [x] else []);
                 r' = drop (length sign) r
             in if takeWhile is_digit r' = [] then ([], s)
                else (c # sign @ takeWhile is_digit r', dropWhile is_digit r'))
          else ([], s))"

text \<open>
  A word where a value is expected. The decoder accepts a literal, or matches a number
  and converts it at once: the conversion of an integer of more than 640 digits raises
  \<^verbatim>\<open>ValueError\<close> when the digit limit is set and exceeded. Characters of the word that
  follow the value are a defect that the decoder meets after the conversion.
\<close>

definition scan_word :: "py_env \<Rightarrow> string \<Rightarrow> py_error + json" where
  "scan_word env w =
     (if w = ''null'' then Inr JNull
      else if w = ''true'' then Inr (JBool True)
      else if w = ''false'' then Inr (JBool False)
      else if w = ''NaN'' \<or> w = ''Infinity'' \<or> w = ''-Infinity'' then Inr (JFloat w)
      else
        (let sign = (case w of [] \<Rightarrow> [] | c # r \<Rightarrow> if c = CHR ''-'' then [c] else [])
         in case scan_int (drop (length sign) w) of
              None \<Rightarrow> Inl JSONDecodeError
            | Some (ds, r1) \<Rightarrow>
                (case scan_frac r1 of (fr, r2) \<Rightarrow>
                   (case scan_exp r2 of (ex, r3) \<Rightarrow>
                      if fr = [] \<and> ex = [] then
                        (if 640 < length ds \<and> 0 < max_str_digits env \<and>
                            max_str_digits env < length ds
                         then Inl ValueError
                         else if r3 \<noteq> [] then Inl JSONDecodeError
                         else Inr (JInt (sign @ ds)))
                      else if r3 \<noteq> [] then Inl JSONDecodeError
                      else Inr (JFloat (sign @ ds @ fr @ ex))))))"

definition is_json_ws :: "char \<Rightarrow> bool" where
  "is_json_ws c = (c = CHR '' '' \<or> c = CHR 0x09 \<or> c = CHR 0x0A \<or> c = CHR 0x0D)"

definition punct :: "char \<Rightarrow> token option" where
  "punct c =
     map_of [(CHR ''{'', TLBrace), (CHR ''}'', TRBrace), (CHR ''['', TLBracket),
             (CHR '']'', TRBracket), (CHR '','', TComma), (CHR '':'', TColon)] c"

text \<open>The one-character escapes of a JSON string.\<close>

definition unescape :: "char \<Rightarrow> char option" where
  "unescape c =
     map_of [(CHR 0x22, CHR 0x22), (CHR 0x5C, CHR 0x5C), (CHR ''/'', CHR ''/''),
             (CHR ''b'', CHR 0x08), (CHR ''f'', CHR 0x0C), (CHR ''n'', CHR 0x0A),
             (CHR ''r'', CHR 0x0D), (CHR ''t'', CHR 0x09)] c"

text \<open>A hexadecimal digit as four bits, the least significant first.\<close>

definition hex_bits :: "char \<Rightarrow> (bool \<times> bool \<times> bool \<times> bool) option" where
  "hex_bits c =
     map_of [(CHR ''0'', (False, False, False, False)), (CHR ''1'', (True, False, False, False)),
             (CHR ''2'', (False, True, False, False)), (CHR ''3'', (True, True, False, False)),
             (CHR ''4'', (False, False, True, False)), (CHR ''5'', (True, False, True, False)),
             (CHR ''6'', (False, True, True, False)), (CHR ''7'', (True, True, True, False)),
             (CHR ''8'', (False, False, False, True)), (CHR ''9'', (True, False, False, True)),
             (CHR ''a'', (False, True, False, True)), (CHR ''b'', (True, True, False, True)),
             (CHR ''c'', (False, False, True, True)), (CHR ''d'', (True, False, True, True)),
             (CHR ''e'', (False, True, True, True)), (CHR ''f'', (True, True, True, True)),
             (CHR ''A'', (False, True, False, True)), (CHR ''B'', (True, True, False, True)),
             (CHR ''C'', (False, False, True, True)), (CHR ''D'', (True, False, True, True)),
             (CHR ''E'', (False, True, True, True)), (CHR ''F'', (True, True, True, True))] c"

text \<open>
  The escape \<^verbatim>\<open>\uXXXX\<close>, given its four digits: a decode error when one is no
  hexadecimal digit, and outside this model when the code point is 256 or more.
\<close>

definition unicode_escape :: "string \<Rightarrow> py_error + char" where
  "unicode_escape ds =
     (case map hex_bits ds of
        [Some h3, Some h2, Some (c0, c1, c2, c3), Some (b0, b1, b2, b3)] \<Rightarrow>
          if h3 = (False, False, False, False) \<and> h2 = (False, False, False, False)
          then Inr (Char b0 b1 b2 b3 c0 c1 c2 c3)
          else Inl OutsideModel
      | _ \<Rightarrow> Inl JSONDecodeError)"

datatype lex_mode =
  LDefault | LWord string | LString string | LEscape string | LUnicode string string

text \<open>
  The lexer. The accumulators of \<open>LWord\<close> and \<open>LString\<close> hold the characters read so
  far, the last one first. A string may not hold a control character (below 32). The
  tokens end with the first string literal that is rejected.
\<close>

fun lex :: "lex_mode \<Rightarrow> string \<Rightarrow> token list" where
  "lex LDefault [] = []"
| "lex (LWord w) [] = [TWord (rev w)]"
| "lex (LString acc) [] = [TBadString JSONDecodeError]"
| "lex (LEscape acc) [] = [TBadString JSONDecodeError]"
| "lex (LUnicode acc ds) [] = [TBadString JSONDecodeError]"
| "lex LDefault (c # cs) =
     (if is_json_ws c then lex LDefault cs
      else if c = CHR 0x22 then lex (LString []) cs
      else (case punct c of
              Some t \<Rightarrow> t # lex LDefault cs
            | None \<Rightarrow> lex (LWord [c]) cs))"
| "lex (LWord w) (c # cs) =
     (if is_json_ws c then TWord (rev w) # lex LDefault cs
      else if c = CHR 0x22 then TWord (rev w) # lex (LString []) cs
      else (case punct c of
              Some t \<Rightarrow> TWord (rev w) # t # lex LDefault cs
            | None \<Rightarrow> lex (LWord (c # w)) cs))"
| "lex (LString acc) (c # cs) =
     (if c = CHR 0x22 then TString (rev acc) # lex LDefault cs
      else if c = CHR 0x5C then lex (LEscape acc) cs
      else if (of_char c :: nat) < 32 then [TBadString JSONDecodeError]
      else lex (LString (c # acc)) cs)"
| "lex (LEscape acc) (c # cs) =
     (if c = CHR ''u'' then lex (LUnicode acc []) cs
      else (case unescape c of
              None \<Rightarrow> [TBadString JSONDecodeError]
            | Some d \<Rightarrow> lex (LString (d # acc)) cs))"
| "lex (LUnicode acc ds) (c # cs) =
     (if length ds < 3 then lex (LUnicode acc (ds @ [c])) cs
      else (case unicode_escape (ds @ [c]) of
              Inl e \<Rightarrow> [TBadString e]
            | Inr d \<Rightarrow> lex (LString (d # acc)) cs))"

text \<open>
  The checker of the token sequence. The stack holds the containers that are open: an
  array with its elements so far (the last one first), an object that waits for a key,
  and an object that waits for the value of a key. Its length is the nesting depth.
\<close>

datatype frame =
  FArray "json list" | FObject "(string \<times> json) list" | FMember "(string \<times> json) list" string

datatype pstate =
  PValue | PValueOrClose | PKey | PKeyOrClose | PColon string | PAfter json

text \<open>A token where a value is expected.\<close>

definition value_start ::
  "py_env \<Rightarrow> frame list \<Rightarrow> token \<Rightarrow> py_error + pstate \<times> frame list"
where
  "value_start env st t =
     (case t of
        TLBrace \<Rightarrow>
          if max_nesting env \<le> length st then Inl RecursionError
          else Inr (PKeyOrClose, FObject [] # st)
      | TLBracket \<Rightarrow>
          if max_nesting env \<le> length st then Inl RecursionError
          else Inr (PValueOrClose, FArray [] # st)
      | TString s \<Rightarrow> Inr (PAfter (JString s), st)
      | TBadString e \<Rightarrow> Inl e
      | TWord w \<Rightarrow> (case scan_word env w of Inl e \<Rightarrow> Inl e | Inr v \<Rightarrow> Inr (PAfter v, st))
      | _ \<Rightarrow> Inl JSONDecodeError)"

definition parse_step ::
  "py_env \<Rightarrow> pstate \<times> frame list \<Rightarrow> token \<Rightarrow> py_error + pstate \<times> frame list"
where
  "parse_step env c t =
     (case c of (m, st) \<Rightarrow>
        (case m of
           PValue \<Rightarrow> value_start env st t
         | PValueOrClose \<Rightarrow>
             (case t of
                TRBracket \<Rightarrow>
                  (case st of
                     FArray acc # st' \<Rightarrow> Inr (PAfter (JArray (rev acc)), st')
                   | _ \<Rightarrow> Inl JSONDecodeError)
              | _ \<Rightarrow> value_start env st t)
         | PKey \<Rightarrow>
             (case t of
                TString k \<Rightarrow> Inr (PColon k, st)
              | TBadString e \<Rightarrow> Inl e
              | _ \<Rightarrow> Inl JSONDecodeError)
         | PKeyOrClose \<Rightarrow>
             (case t of
                TString k \<Rightarrow> Inr (PColon k, st)
              | TBadString e \<Rightarrow> Inl e
              | TRBrace \<Rightarrow>
                  (case st of
                     FObject ps # st' \<Rightarrow> Inr (PAfter (JObject ps), st')
                   | _ \<Rightarrow> Inl JSONDecodeError)
              | _ \<Rightarrow> Inl JSONDecodeError)
         | PColon k \<Rightarrow>
             (case t of
                TColon \<Rightarrow>
                  (case st of
                     FObject ps # st' \<Rightarrow> Inr (PValue, FMember ps k # st')
                   | _ \<Rightarrow> Inl JSONDecodeError)
              | _ \<Rightarrow> Inl JSONDecodeError)
         | PAfter v \<Rightarrow>
             (case st of
                FArray acc # st' \<Rightarrow>
                  (case t of
                     TComma \<Rightarrow> Inr (PValue, FArray (v # acc) # st')
                   | TRBracket \<Rightarrow> Inr (PAfter (JArray (rev (v # acc))), st')
                   | _ \<Rightarrow> Inl JSONDecodeError)
              | FMember ps k # st' \<Rightarrow>
                  (case t of
                     TComma \<Rightarrow> Inr (PKey, FObject (AList.update k v ps) # st')
                   | TRBrace \<Rightarrow> Inr (PAfter (JObject (AList.update k v ps)), st')
                   | _ \<Rightarrow> Inl JSONDecodeError)
              | _ \<Rightarrow> Inl JSONDecodeError)))"

text \<open>At the end of the tokens, one value must be complete and no container open.\<close>

definition parse_end :: "pstate \<times> frame list \<Rightarrow> py_error + json" where
  "parse_end c = (case c of (PAfter v, []) \<Rightarrow> Inr v | _ \<Rightarrow> Inl JSONDecodeError)"

fun parse_tokens :: "py_env \<Rightarrow> pstate \<times> frame list \<Rightarrow> token list \<Rightarrow> py_error + json" where
  "parse_tokens env c [] = parse_end c"
| "parse_tokens env c (t # ts) =
     (case parse_step env c t of Inl e \<Rightarrow> Inl e | Inr c' \<Rightarrow> parse_tokens env c' ts)"

definition json_loads :: "py_env \<Rightarrow> string \<Rightarrow> py_error + json" where
  "json_loads env s = parse_tokens env (PValue, []) (lex LDefault s)"

section \<open>Response parser\<close>

text \<open>
  \<^verbatim>\<open>str.isprintable\<close> for one character: of the Latin-1 characters, those from 32 to
  126 and from 161 on, without the soft hyphen.
\<close>

definition py_isprintable :: "char \<Rightarrow> bool" where
  "py_isprintable c =
     (let n = (of_char c :: nat) in (32 \<le> n \<and> n \<le> 126) \<or> (161 \<le> n \<and> n \<noteq> 173))"

definition hex_digit :: "nat \<Rightarrow> char" where
  "hex_digit n = ''0123456789abcdef'' ! (n mod 16)"

text \<open>A character of a string inside its \<^verbatim>\<open>repr\<close>, which is quoted with \<open>q\<close>.\<close>

definition repr_char :: "char \<Rightarrow> char \<Rightarrow> string" where
  "repr_char q c =
     (if c = q \<or> c = CHR 0x5C then [CHR 0x5C, c]
      else if c = CHR 0x09 then [CHR 0x5C, CHR ''t'']
      else if c = CHR 0x0A then [CHR 0x5C, CHR ''n'']
      else if c = CHR 0x0D then [CHR 0x5C, CHR ''r'']
      else if py_isprintable c then [c]
      else [CHR 0x5C, CHR ''x'', hex_digit ((of_char c :: nat) div 16), hex_digit (of_char c)])"

text \<open>
  \<^verbatim>\<open>repr(s)\<close> for a string: in single quotes, unless the string has a single quote and
  no double quote.
\<close>

definition repr_str :: "string \<Rightarrow> string" where
  "repr_str s =
     (let q = (if CHR 0x27 \<in> set s \<and> CHR 0x22 \<notin> set s then CHR 0x22 else CHR 0x27)
      in q # concat (map (repr_char q) s) @ [q])"

text \<open>
  \<^verbatim>\<open>repr(x)\<close> for a decoded JSON value. The lexeme of a JSON integer is its decimal form,
  except for \<^verbatim>\<open>-0\<close>. The elements of a list and the keys and values of a dictionary
  are printed with \<^verbatim>\<open>repr\<close>.
\<close>

fun py_repr :: "py_env \<Rightarrow> json \<Rightarrow> string" where
  "py_repr env JNull = ''None''"
| "py_repr env (JBool b) = (if b then ''True'' else ''False'')"
| "py_repr env (JInt w) = (if w = ''-0'' then ''0'' else w)"
| "py_repr env (JFloat w) =
     (if w = ''NaN'' then ''nan''
      else if w = ''Infinity'' then ''inf''
      else if w = ''-Infinity'' then ''-inf''
      else float_str env w)"
| "py_repr env (JString s) = repr_str s"
| "py_repr env (JArray xs) = ''['' @ py_join '', '' (map (py_repr env) xs) @ '']''"
| "py_repr env (JObject ps) =
     ''{'' @ py_join '', '' (map (\<lambda>(k, v). repr_str k @ '': '' @ py_repr env v) ps) @ ''}''"

text \<open>
  \<^verbatim>\<open>str(x)\<close> for a decoded JSON value: a string is itself, any other value prints as its
  \<^verbatim>\<open>repr\<close>. The parser applies it to values that the decoder returned; their integers
  are within the digit limit and their nesting within the recursion limit, which the
  decoder has checked, so that the conversion does not raise.
\<close>

fun py_str :: "py_env \<Rightarrow> json \<Rightarrow> string" where
  "py_str env (JString s) = s"
| "py_str env v = py_repr env v"

text \<open>
  \<^verbatim>\<open>re.search(r'(?i)\n*SUMMARY_JSON:\s*\n*', text)\<close>. At a start position the greedy
  \<^verbatim>\<open>\n*\<close> takes all line feeds, the literal must follow in either case of each letter,
  and the greedy \<^verbatim>\<open>\s*\<close> takes all white space, which leaves nothing to the last
  \<^verbatim>\<open>\n*\<close>. \<open>re_match_at\<close> gives the length of the match at the head of the string; the
  search tries the start positions from the left and returns the first match as
  (\<^verbatim>\<open>match.start()\<close>, \<^verbatim>\<open>match.end()\<close>).
\<close>

definition marker_at :: "string \<Rightarrow> bool" where
  "marker_at s = (py_lower (take 13 s) = ''summary_json:'')"

definition re_match_at :: "string \<Rightarrow> nat option" where
  "re_match_at s =
     (let k = length (takeWhile (\<lambda>c. c = CHR 0x0A) s);
          s1 = drop k s
      in if marker_at s1 then Some (k + 13 + length (takeWhile py_isspace (drop 13 s1)))
         else None)"

fun re_search :: "nat \<Rightarrow> string \<Rightarrow> (nat \<times> nat) option" where
  "re_search i [] = None"
| "re_search i (c # cs) =
     (case re_match_at (c # cs) of
        Some n \<Rightarrow> Some (i, i + n)
      | None \<Rightarrow> re_search (Suc i) cs)"

text \<open>
  The loop that looks for the closing brace (lines 140 to 149), run on the section from
  index \<open>json_start\<close> on; \<open>i\<close> is the index of the head of the string. It returns
  \<^verbatim>\<open>json_end\<close>, which stays \<open>-1\<close> when the loop ends without a \<^verbatim>\<open>break\<close>.
\<close>

fun find_json_end :: "int \<Rightarrow> int \<Rightarrow> string \<Rightarrow> int" where
  "find_json_end brace_count i [] = -1"
| "find_json_end brace_count i (c # cs) =
     (if c = CHR ''{'' then find_json_end (brace_count + 1) (i + 1) cs
      else if c = CHR ''}'' then
        (if brace_count - 1 = 0 then i + 1
         else find_json_end (brace_count - 1) (i + 1) cs)
      else find_json_end brace_count (i + 1) cs)"

text \<open>The comprehension \<^verbatim>\<open>{nid: "" for nid in expected_neighbors}\<close>.\<close>

fun empty_comments :: "string list \<Rightarrow> (string \<rightharpoonup> string)" where
  "empty_comments [] = Map.empty"
| "empty_comments (nid # nids) = (empty_comments nids)(nid \<mapsto> [])"

text \<open>The comprehension \<^verbatim>\<open>{label.lower(): nid for nid, label in labels.items()}\<close>.\<close>

fun label_to_id_from :: "(string \<times> string) list \<Rightarrow> (string \<rightharpoonup> string) \<Rightarrow> (string \<rightharpoonup> string)" where
  "label_to_id_from [] m = m"
| "label_to_id_from ((nid, label) # ls) m = label_to_id_from ls (m(py_lower label \<mapsto> nid))"

text \<open>\<^verbatim>\<open>x.items()\<close> and \<^verbatim>\<open>x.get\<close>: only a dictionary has them.\<close>

fun dict_items :: "json \<Rightarrow> py_error + (string \<times> json) list" where
  "dict_items (JObject ps) = Inr ps"
| "dict_items v = Inl AttributeError"

text \<open>The loop over \<^verbatim>\<open>comments_dict.items()\<close> (lines 163 to 168).\<close>

fun record_comments ::
  "py_env \<Rightarrow> (string \<rightharpoonup> string) \<Rightarrow> string list \<Rightarrow> (string \<times> json) list \<Rightarrow>
   (string \<rightharpoonup> string) \<Rightarrow> (string \<rightharpoonup> string)"
where
  "record_comments env label_to_id expected_neighbors [] comments = comments"
| "record_comments env label_to_id expected_neighbors ((neighbor_name, comment_text) # ps) comments =
     (let name_lower = py_lower (py_strip neighbor_name)
      in case label_to_id name_lower of
           None \<Rightarrow> record_comments env label_to_id expected_neighbors ps comments
         | Some nid \<Rightarrow>
             if nid \<in> set expected_neighbors then
               record_comments env label_to_id expected_neighbors ps
                 (comments(nid \<mapsto> py_strip (py_str env comment_text)))
             else record_comments env label_to_id expected_neighbors ps comments)"

text \<open>The loop that fills the missing comments (lines 176 to 178).\<close>

fun fill_missing :: "string list \<Rightarrow> (string \<rightharpoonup> string) \<Rightarrow> (string \<rightharpoonup> string)" where
  "fill_missing [] comments = comments"
| "fill_missing (nid # nids) comments =
     fill_missing nids (if comments nid = None then comments(nid \<mapsto> []) else comments)"

text \<open>The three early returns and the exception handler return the same triple.\<close>

definition fallback ::
  "string \<Rightarrow> string list \<Rightarrow> py_error + string \<times> string \<times> (string \<rightharpoonup> string)"
where
  "fallback text expected_neighbors = Inr (text, [], empty_comments expected_neighbors)"

text \<open>
  The part of the \<^verbatim>\<open>try\<close> block after \<^verbatim>\<open>json.loads\<close> (lines 158 to 168), with the final
  loop and the \<^verbatim>\<open>return\<close>. The exception it can raise, \<^verbatim>\<open>AttributeError\<close>, is not caught
  by the handler.
\<close>

definition extract_fields ::
  "py_env \<Rightarrow> json \<Rightarrow> string \<Rightarrow> string list \<Rightarrow> (string \<times> string) list \<Rightarrow> int \<Rightarrow>
   py_error + string \<times> string \<times> (string \<rightharpoonup> string)"
where
  "extract_fields env data main_text expected_neighbors labels round_num =
     (case dict_items data of
        Inl e \<Rightarrow> Inl e
      | Inr items \<Rightarrow>
          (let position =
                 py_strip (py_str env (case map_of items ''position'' of
                                         None \<Rightarrow> JString []
                                       | Some v \<Rightarrow> v))
           in case (if round_num > 1 \<and> map_of items ''comments'' \<noteq> None then
                      (case dict_items (the (map_of items ''comments'')) of
                         Inl e \<Rightarrow> Inl e
                       | Inr pairs \<Rightarrow>
                           Inr (record_comments env (label_to_id_from labels Map.empty)
                                  expected_neighbors pairs Map.empty))
                    else Inr Map.empty) of
                Inl e \<Rightarrow> Inl e
              | Inr comments \<Rightarrow>
                  Inr (main_text, position, fill_missing expected_neighbors comments)))"

text \<open>
  The whole function. The handler catches \<^verbatim>\<open>json.JSONDecodeError\<close> and every other
  \<^verbatim>\<open>ValueError\<close>; any other exception of the decoder leaves the function.
\<close>

definition parse_summary_json ::
  "py_env \<Rightarrow> string \<Rightarrow> string list \<Rightarrow> (string \<times> string) list \<Rightarrow> int \<Rightarrow>
   py_error + string \<times> string \<times> (string \<rightharpoonup> string)"
where
  "parse_summary_json env text expected_neighbors labels round_num =
     (case re_search 0 text of
        None \<Rightarrow> fallback text expected_neighbors
      | Some (m_start, m_end) \<Rightarrow>
          (let main_text = py_strip (take m_start text);
               json_section = py_strip (drop m_end text);
               json_start = py_find (CHR ''{'') json_section
           in if json_start = -1 then fallback text expected_neighbors
              else
                (let json_end =
                       find_json_end 0 json_start (drop (nat json_start) json_section)
                 in if json_end = -1 then fallback text expected_neighbors
                    else
                      (case json_loads env
                              (drop (nat json_start) (take (nat json_end) json_section)) of
                         Inl e \<Rightarrow>
                           if e = JSONDecodeError \<or> e = ValueError
                           then fallback text expected_neighbors
                           else Inl e
                       | Inr data \<Rightarrow>
                           extract_fields env data main_text expected_neighbors labels
                             round_num))))"


definition json_candidate :: "string \<Rightarrow> string" where
  "json_candidate json_section =
     (let json_start = py_find (CHR ''{'') json_section;
          json_end = find_json_end 0 json_start (drop (nat json_start) json_section)
      in drop (nat json_start) (take (nat json_end) json_section))"




section \<open>Debate scheduler\<close>

text \<open>
  The messages of a conversation history (content, and the source of a user or assistant
  turn) and the events that \<open>run_debate\<close> yields.
\<close>

datatype message =
  SystemMessage string | UserMessage string string | AssistantMessage string string

datatype event =
  PositionEvent string string int
  | MessageEvent string string string string int

text \<open>
  \<open>PositionEvent from position round\<close> is the dictionary with \<^verbatim>\<open>"type": "position"\<close>;
  \<open>MessageEvent from to text summary round\<close> is the one with \<^verbatim>\<open>"type": "message"\<close>.

  The state that the round loop mutates: the history of every node and the main texts
  stored per round.
\<close>

record debate_state =
  histories :: "string \<rightharpoonup> message list"
  responses_by_round :: "int \<rightharpoonup> (string \<rightharpoonup> string)"

text \<open>
  What the loop reads and never changes. \<open>ctx_env\<close> is the interpreter that runs the
  backend. \<open>generate\<close> stands for the model clients:
  \<open>generate nid history\<close> is the content of the reply of
  \<^verbatim>\<open>model_clients[nid].create(history)\<close>, or the exception it raises. The history of a
  node grows with every call, so a function of the history can give any sequence of
  replies.
\<close>

record debate_ctx =
  ctx_env :: py_env
  ctx_question :: string
  ctx_labels :: "(string \<times> string) list"
  ctx_outgoing :: neighbor_map
  ctx_incoming :: neighbor_map
  ctx_rounds :: int
  generate :: "string \<Rightarrow> message list \<Rightarrow> py_error + string"

text \<open>\<^verbatim>\<open>(node.get("systemPrompt") or "").strip()\<close>.\<close>

definition custom_prompt_of :: "node \<Rightarrow> string" where
  "custom_prompt_of n = py_strip (case node_systemPrompt n of None \<Rightarrow> [] | Some s \<Rightarrow> s)"

text \<open>The system prompt of a node in a round (lines 323 to 329, and 309 to 310).\<close>

definition system_prompt_of :: "debate_ctx \<Rightarrow> node \<Rightarrow> int \<Rightarrow> string" where
  "system_prompt_of ctx n round_num =
     build_system_prompt (custom_prompt_of n) (neighbors_of (ctx_outgoing ctx) (node_id n))
       (ctx_labels ctx) round_num"

text \<open>The events of one node in one round (lines 358 to 387).\<close>

definition step_events ::
  "string \<Rightarrow> string list \<Rightarrow> string \<Rightarrow> string \<Rightarrow> (string \<rightharpoonup> string) \<Rightarrow> int \<Rightarrow> event list"
where
  "step_events nid recipients main_text position comments round_num =
     PositionEvent nid position round_num #
     (if recipients = [] then [MessageEvent nid ''none'' main_text [] round_num]
      else map (\<lambda>to_id. MessageEvent nid to_id main_text
                          (case comments to_id of None \<Rightarrow> [] | Some c \<Rightarrow> c) round_num)
             recipients)"

text \<open>
  The body of the loop \<^verbatim>\<open>for node in nodes\<close> (lines 319 to 387). The list
  \<^verbatim>\<open>history\<close> is the object stored in \<^verbatim>\<open>histories\<close>, so every change of it is a change
  of the state. All exceptions of the body come before its first \<^verbatim>\<open>yield\<close>.
\<close>

definition debate_step ::
  "debate_ctx \<Rightarrow> int \<Rightarrow> node \<Rightarrow> debate_state \<Rightarrow> py_error + debate_state \<times> event list"
where
  "debate_step ctx round_num n st =
     (let nid = node_id n in
      case histories st nid of
        None \<Rightarrow> Inl KeyError
      | Some history \<Rightarrow>
          if history = [] then Inl IndexError
          else
            (let history1 = history[0 := SystemMessage (system_prompt_of ctx n round_num)];
                 prompt = user_prompt (ctx_question ctx) (ctx_labels ctx) (ctx_incoming ctx)
                            (responses_by_round st) round_num (ctx_rounds ctx) nid;
                 history2 = history1 @ [UserMessage prompt ''user'']
             in case generate ctx nid history2 of
                  Inl e \<Rightarrow> Inl e
                | Inr content \<Rightarrow>
                    (let history3 =
                           history2 @ [AssistantMessage content (label_of (ctx_labels ctx) nid)];
                         recipients = neighbors_of (ctx_outgoing ctx) nid
                     in case parse_summary_json (ctx_env ctx) content recipients (ctx_labels ctx)
                             round_num of
                          Inl e \<Rightarrow> Inl e
                        | Inr (main_text, position, comments) \<Rightarrow>
                            (case responses_by_round st round_num of
                               None \<Rightarrow> Inl KeyError
                             | Some d \<Rightarrow>
                                 Inr (st\<lparr>histories := (histories st)(nid \<mapsto> history3),
                                         responses_by_round :=
                                           (responses_by_round st)
                                             (round_num \<mapsto> d(nid \<mapsto> main_text))\<rparr>,
                                      step_events nid recipients main_text position comments
                                        round_num)))))"

text \<open>
  The loop over the nodes of one round. The result is the list of the events yielded
  and either the state at the end or the exception that ended the generator.
\<close>

fun run_nodes ::
  "debate_ctx \<Rightarrow> int \<Rightarrow> node list \<Rightarrow> debate_state \<Rightarrow> event list \<times> (py_error + debate_state)"
where
  "run_nodes ctx round_num [] st = ([], Inr st)"
| "run_nodes ctx round_num (n # ns) st =
     (case debate_step ctx round_num n st of
        Inl e \<Rightarrow> ([], Inl e)
      | Inr (st', evs) \<Rightarrow>
          (case run_nodes ctx round_num ns st' of (evs', r) \<Rightarrow> (evs @ evs', r)))"

text \<open>One round: \<^verbatim>\<open>responses_by_round[round_num] = {}\<close>, then the loop over the nodes.\<close>

definition run_round ::
  "debate_ctx \<Rightarrow> node list \<Rightarrow> int \<Rightarrow> debate_state \<Rightarrow> event list \<times> (py_error + debate_state)"
where
  "run_round ctx nodes round_num st =
     run_nodes ctx round_num nodes
       (st\<lparr>responses_by_round := (responses_by_round st)(round_num \<mapsto> Map.empty)\<rparr>)"

text \<open>
  The loop \<^verbatim>\<open>for round_num in range(1, rounds + 1)\<close>, by the number of rounds that remain;
  \<open>round_num\<close> is the number of the next round.
\<close>

fun run_rounds ::
  "debate_ctx \<Rightarrow> node list \<Rightarrow> nat \<Rightarrow> int \<Rightarrow> debate_state \<Rightarrow> event list \<times> (py_error + debate_state)"
where
  "run_rounds ctx nodes 0 round_num st = ([], Inr st)"
| "run_rounds ctx nodes (Suc k) round_num st =
     (case run_round ctx nodes round_num st of
        (evs, Inl e) \<Rightarrow> (evs, Inl e)
      | (evs, Inr st') \<Rightarrow>
          (case run_rounds ctx nodes k (round_num + 1) st' of (evs', r) \<Rightarrow> (evs @ evs', r)))"

text \<open>The comprehension \<^verbatim>\<open>{node["id"]: node["label"] for node in nodes}\<close>.\<close>

definition make_labels :: "node list \<Rightarrow> (string \<times> string) list" where
  "make_labels nodes = fold (\<lambda>n. AList.update (node_id n) (node_label n)) nodes []"

text \<open>The loop that seeds the histories (lines 308 to 311).\<close>

fun init_histories ::
  "debate_ctx \<Rightarrow> node list \<Rightarrow> (string \<rightharpoonup> message list) \<Rightarrow> (string \<rightharpoonup> message list)"
where
  "init_histories ctx [] h = h"
| "init_histories ctx (n # ns) h =
     init_histories ctx ns (h(node_id n \<mapsto> [SystemMessage (system_prompt_of ctx n 1)]))"

text \<open>The question of the configuration, with its default (lines 276 to 278).\<close>

definition resolve_question :: "string option \<Rightarrow> string" where
  "resolve_question q =
     (let question = py_strip (case q of None \<Rightarrow> [] | Some s \<Rightarrow> s)
      in if question = [] then
           ''The impact of artificial intelligence on society: Is AI ultimately beneficial or harmful?''
         else question)"

text \<open>
  \<open>run_debate\<close> up to the end of the round loop: the set-up (lines 272 to 312) and the
  rounds. The aggregator pass that follows the loop and the closing of the clients are
  not part of this development. \<open>rounds\<close> is the value of \<^verbatim>\<open>int(config.get("rounds", 3))\<close>
  and \<open>env\<close> the interpreter.
\<close>

definition make_ctx ::
  "py_env \<Rightarrow> node list \<Rightarrow> neighbor_map \<times> neighbor_map \<Rightarrow> int \<Rightarrow> string option \<Rightarrow>
   (string \<Rightarrow> message list \<Rightarrow> py_error + string) \<Rightarrow> debate_ctx"
where
  "make_ctx env nodes maps rounds q gen =
     \<lparr>ctx_env = env, ctx_question = resolve_question q, ctx_labels = make_labels nodes,
      ctx_outgoing = fst maps, ctx_incoming = snd maps, ctx_rounds = max 1 rounds,
      generate = gen\<rparr>"

definition init_state :: "debate_ctx \<Rightarrow> node list \<Rightarrow> debate_state" where
  "init_state ctx nodes =
     \<lparr>histories = init_histories ctx nodes Map.empty, responses_by_round = Map.empty\<rparr>"

definition run_debate ::
  "py_env \<Rightarrow> node list \<Rightarrow> edge list \<Rightarrow> int \<Rightarrow> string option \<Rightarrow>
   (string \<Rightarrow> message list \<Rightarrow> py_error + string) \<Rightarrow> event list \<times> (py_error + debate_state)"
where
  "run_debate env nodes edges rounds q gen =
     (if nodes = [] then ([], Inr \<lparr>histories = Map.empty, responses_by_round = Map.empty\<rparr>)
      else
        (case build_neighbor_maps nodes edges of
           Inl e \<Rightarrow> ([], Inl e)
         | Inr maps \<Rightarrow>
             (let ctx = make_ctx env nodes maps rounds q gen
              in run_rounds ctx nodes (nat (ctx_rounds ctx)) 1 (init_state ctx nodes))))"

text \<open>
  A list of turns: user turns from the source \<^verbatim>\<open>user\<close>, each followed by an assistant
  turn from the given source.
\<close>

fun is_turns :: "string \<Rightarrow> message list \<Rightarrow> bool" where
  "is_turns src [] = True"
| "is_turns src [m] = False"
| "is_turns src (m1 # m2 # ms) =
     ((case m1 of UserMessage u s1 \<Rightarrow> s1 = ''user'' | _ \<Rightarrow> False) \<and>
      (case m2 of AssistantMessage a s2 \<Rightarrow> s2 = src | _ \<Rightarrow> False) \<and>
      is_turns src ms)"

section \<open>Properties of the topology resolver\<close>

lemma empty_lists_apply:
  "empty_lists nodes k = (if k \<in> node_id ` set nodes then Some [] else None)"
  by (induction nodes) auto

lemma dom_empty_lists: "dom (empty_lists nodes) = node_id ` set nodes"
  by (auto simp: dom_def empty_lists_apply)

lemma empty_lists_Some: "empty_lists nodes k = Some ns \<Longrightarrow> ns = []"
  by (simp add: empty_lists_apply split: if_splits)

lemma neighbor_inv_init:
  "neighbor_inv (node_id ` set nodes) (empty_lists nodes, empty_lists nodes)"
  unfolding neighbor_inv_def
  by (auto simp: dom_empty_lists dest: empty_lists_Some)

lemma add_edge_inv:
  assumes "neighbor_inv ids st"
  shows "\<exists>st'. add_edge sender receiver st = Inr st' \<and> neighbor_inv ids st'"
proof (cases st)
  case (Pair outgoing incoming)
  show ?thesis
  proof (cases "outgoing sender = None \<or> outgoing receiver = None")
    case True
    with Pair assms show ?thesis by (simp add: add_edge_def)
  next
    case False
    then obtain os where os: "outgoing sender = Some os" by auto
    from False Pair assms have "receiver \<in> dom incoming" and s: "sender \<in> ids"
      and r: "receiver \<in> ids"
      by (auto simp: neighbor_inv_def)
    then obtain ins where ins: "incoming receiver = Some ins" by auto
    from assms Pair os ins have d: "distinct os" "set os \<subseteq> ids" "distinct ins" "set ins \<subseteq> ids"
      by (auto simp: neighbor_inv_def)
    have "neighbor_inv ids
           (if receiver \<notin> set os then outgoing(sender \<mapsto> os @ [receiver]) else outgoing,
            if sender \<notin> set ins then incoming(receiver \<mapsto> ins @ [sender]) else incoming)"
      using assms Pair os ins d s r
      unfolding neighbor_inv_def by (auto split: if_splits)
    moreover from False obtain os' where "outgoing receiver = Some os'" by auto
    ultimately show ?thesis
      using Pair os ins by (simp add: add_edge_def Let_def)
  qed
qed

lemma process_edge_inv:
  assumes "neighbor_inv ids st"
  shows "\<exists>st'. process_edge e st = Inr st' \<and> neighbor_inv ids st'"
proof -
  have one: "\<exists>st'. add_edge a b st = Inr st' \<and> neighbor_inv ids st'" for a b
    by (rule add_edge_inv [OF assms])
  have two: "\<exists>st'. (case add_edge a b st of Inl err \<Rightarrow> Inl err | Inr st1 \<Rightarrow> add_edge b a st1)
                 = Inr st' \<and> neighbor_inv ids st'" for a b
  proof -
    from one obtain st1
      where "add_edge a b st = Inr st1" "neighbor_inv ids st1" by blast
    with add_edge_inv [of ids st1 b a] show ?thesis by simp
  qed
  let ?d = "case edge_direction e of None \<Rightarrow> ''bidirectional'' | Some d \<Rightarrow> d"
  consider (skip) "py_not (edge_from e) \<or> py_not (edge_to e)"
    | (ab) "\<not> (py_not (edge_from e) \<or> py_not (edge_to e))" "?d = ''a_to_b''"
    | (ba) "\<not> (py_not (edge_from e) \<or> py_not (edge_to e))" "?d = ''b_to_a''"
    | (bi) "\<not> (py_not (edge_from e) \<or> py_not (edge_to e))" "?d = ''bidirectional''"
    | (other) "\<not> (py_not (edge_from e) \<or> py_not (edge_to e))" "?d \<noteq> ''a_to_b''"
        "?d \<noteq> ''b_to_a''" "?d \<noteq> ''bidirectional''"
    by blast
  then show ?thesis
  proof cases
    case skip
    with assms show ?thesis by (simp add: process_edge_def Let_def)
  next
    case ab
    with one [where a = "the (edge_from e)" and b = "the (edge_to e)"] show ?thesis
      by (simp add: process_edge_def Let_def)
  next
    case ba
    with one [where a = "the (edge_to e)" and b = "the (edge_from e)"] show ?thesis
      by (simp add: process_edge_def Let_def)
  next
    case bi
    with two [where a = "the (edge_from e)" and b = "the (edge_to e)"] show ?thesis
      by (simp add: process_edge_def Let_def)
  next
    case other
    with assms show ?thesis by (simp add: process_edge_def Let_def)
  qed
qed

lemma process_edges_inv:
  "neighbor_inv ids st \<Longrightarrow> \<exists>st'. process_edges es st = Inr st' \<and> neighbor_inv ids st'"
proof (induction es arbitrary: st)
  case Nil
  then show ?case by simp
next
  case (Cons e es)
  from process_edge_inv [OF Cons.prems] obtain st1
    where "process_edge e st = Inr st1" "neighbor_inv ids st1" by blast
  with Cons.IH [of st1] show ?case by auto
qed

lemma build_neighbor_maps_inv:
  "\<exists>st. build_neighbor_maps nodes edges = Inr st \<and> neighbor_inv (node_id ` set nodes) st"
  unfolding build_neighbor_maps_def
  by (rule process_edges_inv [OF neighbor_inv_init])

lemma add_edge_unknown:
  "sender \<notin> dom (fst st) \<or> receiver \<notin> dom (fst st) \<Longrightarrow> add_edge sender receiver st = Inr st"
  by (cases st) (auto simp: add_edge_def)

lemma process_edge_malformed:
  assumes "\<not> edge_known (dom (fst st)) e"
  shows "process_edge e st = Inr st"
proof (cases "py_not (edge_from e) \<or> py_not (edge_to e)")
  case True
  then show ?thesis by (simp add: process_edge_def Let_def)
next
  case False
  with assms have "the (edge_from e) \<notin> dom (fst st) \<or> the (edge_to e) \<notin> dom (fst st)"
    by (simp add: edge_known_def)
  then have "add_edge (the (edge_from e)) (the (edge_to e)) st = Inr st"
    and "add_edge (the (edge_to e)) (the (edge_from e)) st = Inr st"
    by (auto intro: add_edge_unknown)
  then show ?thesis by (simp add: process_edge_def Let_def)
qed

lemma process_edges_filter:
  "neighbor_inv ids st \<Longrightarrow>
   process_edges (filter (edge_known ids) es) st = process_edges es st"
proof (induction es arbitrary: st)
  case Nil
  then show ?case by simp
next
  case (Cons e es)
  from Cons.prems have d: "dom (fst st) = ids" by (simp add: neighbor_inv_def)
  show ?case
  proof (cases "edge_known ids e")
    case True
    from process_edge_inv [OF Cons.prems] obtain st1
      where "process_edge e st = Inr st1" "neighbor_inv ids st1" by blast
    with True Cons.IH [of st1] show ?thesis by simp
  next
    case False
    with d have "process_edge e st = Inr st" by (simp add: process_edge_malformed)
    with False Cons.IH [OF Cons.prems] show ?thesis by simp
  qed
qed

text \<open>
  C7. For every node list and every edge list, \<open>build_neighbor_maps\<close> returns (it
  raises nothing) two dictionaries whose keys are exactly the node ids and whose neighbor
  lists are duplicate-free and hold node ids only; edges with a missing (absent or empty)
  endpoint or an endpoint that is no node id are no-ops: removing them from the edge list
  does not change the result.
\<close>

theorem build_neighbor_maps_wellformed:
  "\<exists>outgoing incoming.
     build_neighbor_maps nodes edges = Inr (outgoing, incoming) \<and>
     dom outgoing = node_id ` set nodes \<and>
     dom incoming = node_id ` set nodes \<and>
     (\<forall>k ns. outgoing k = Some ns \<longrightarrow> distinct ns \<and> set ns \<subseteq> node_id ` set nodes) \<and>
     (\<forall>k ns. incoming k = Some ns \<longrightarrow> distinct ns \<and> set ns \<subseteq> node_id ` set nodes) \<and>
     build_neighbor_maps nodes (filter (edge_known (node_id ` set nodes)) edges)
       = build_neighbor_maps nodes edges"
proof -
  from build_neighbor_maps_inv [of nodes edges] obtain st
    where st: "build_neighbor_maps nodes edges = Inr st"
      and inv: "neighbor_inv (node_id ` set nodes) st" by blast
  obtain outgoing incoming where p: "st = (outgoing, incoming)" by (cases st)
  have "build_neighbor_maps nodes (filter (edge_known (node_id ` set nodes)) edges)
          = build_neighbor_maps nodes edges"
    unfolding build_neighbor_maps_def
    by (rule process_edges_filter [OF neighbor_inv_init])
  with st inv p show ?thesis
    unfolding neighbor_inv_def by auto
qed

theorem build_neighbor_maps_wellformed_witness:
  "\<exists>outgoing incoming.
     build_neighbor_maps
       [\<lparr>node_id = ''a'', node_label = ''Ann'', node_systemPrompt = None\<rparr>,
        \<lparr>node_id = ''b'', node_label = ''Bob'', node_systemPrompt = None\<rparr>]
       [\<lparr>edge_from = Some ''a'', edge_to = Some ''b'', edge_direction = Some ''a_to_b''\<rparr>,
        \<lparr>edge_from = None, edge_to = Some ''b'', edge_direction = None\<rparr>,
        \<lparr>edge_from = Some ''a'', edge_to = Some ''z'', edge_direction = None\<rparr>,
        \<lparr>edge_from = Some ''b'', edge_to = Some ''a'', edge_direction = Some ''b_to_a''\<rparr>]
       = Inr (outgoing, incoming) \<and>
     dom outgoing = {''a'', ''b''} \<and> dom incoming = {''a'', ''b''} \<and>
     outgoing ''a'' = Some [''b''] \<and> outgoing ''b'' = Some [] \<and>
     incoming ''a'' = Some [] \<and> incoming ''b'' = Some [''a'']"
proof -
  let ?nodes = "[\<lparr>node_id = ''a'', node_label = ''Ann'', node_systemPrompt = None\<rparr>,
        \<lparr>node_id = ''b'', node_label = ''Bob'', node_systemPrompt = None\<rparr>]"
  let ?edges = "[\<lparr>edge_from = Some ''a'', edge_to = Some ''b'', edge_direction = Some ''a_to_b''\<rparr>,
        \<lparr>edge_from = None, edge_to = Some ''b'', edge_direction = None\<rparr>,
        \<lparr>edge_from = Some ''a'', edge_to = Some ''z'', edge_direction = None\<rparr>,
        \<lparr>edge_from = Some ''b'', edge_to = Some ''a'', edge_direction = Some ''b_to_a''\<rparr>]"
  from build_neighbor_maps_wellformed [of ?nodes ?edges] obtain outgoing incoming
    where r: "build_neighbor_maps ?nodes ?edges = Inr (outgoing, incoming)"
      and d: "dom outgoing = node_id ` set ?nodes" "dom incoming = node_id ` set ?nodes"
    by blast
  from r have "outgoing ''a'' = Some [''b''] \<and> outgoing ''b'' = Some [] \<and>
     incoming ''a'' = Some [] \<and> incoming ''b'' = Some [''a'']"
    by (auto simp: build_neighbor_maps_def process_edge_def add_edge_def Let_def)
  with r d show ?thesis by auto
qed

text \<open>
  C6, as stated, fails for a node whose id is the empty string: the guard
  \<^verbatim>\<open>if not from_id or not to_id: continue\<close> skips the edge although both endpoints are
  known nodes.
\<close>

theorem a_to_b_edge_empty_id_counterexample:
  "build_neighbor_maps
     [\<lparr>node_id = '''', node_label = ''Ann'', node_systemPrompt = None\<rparr>,
      \<lparr>node_id = ''b'', node_label = ''Bob'', node_systemPrompt = None\<rparr>]
     [\<lparr>edge_from = Some '''', edge_to = Some ''b'', edge_direction = Some ''a_to_b''\<rparr>]
   = Inr ([''b'' \<mapsto> [], '''' \<mapsto> []], [''b'' \<mapsto> [], '''' \<mapsto> []]) \<and>
   ''b'' \<notin> set (neighbors_of [''b'' \<mapsto> [], '''' \<mapsto> []] '''')"
  by (simp add: build_neighbor_maps_def process_edge_def neighbors_of_def)

text \<open>
  C6 (amended). For two distinct known nodes \<open>X\<close> and \<open>Y\<close> whose ids are not empty and
  the single edge (from = \<open>X\<close>, to = \<open>Y\<close>): with direction \<^verbatim>\<open>a_to_b\<close> the resolver
  yields \<open>outgoing[X] = [Y]\<close>, \<open>incoming[Y] = [X]\<close>, and \<open>outgoing[Y]\<close> and
  \<open>incoming[X]\<close> empty; with direction \<^verbatim>\<open>bidirectional\<close> it yields all four
  memberships.
\<close>

theorem single_edge_direction:
  assumes "X \<in> node_id ` set nodes" and "Y \<in> node_id ` set nodes"
    and "X \<noteq> []" and "Y \<noteq> []" and "X \<noteq> Y"
  shows "(\<exists>outgoing incoming.
           build_neighbor_maps nodes
             [\<lparr>edge_from = Some X, edge_to = Some Y, edge_direction = Some ''a_to_b''\<rparr>]
             = Inr (outgoing, incoming) \<and>
           Y \<in> set (neighbors_of outgoing X) \<and> X \<in> set (neighbors_of incoming Y) \<and>
           X \<notin> set (neighbors_of outgoing Y) \<and> Y \<notin> set (neighbors_of incoming X)) \<and>
         (\<exists>outgoing incoming.
           build_neighbor_maps nodes
             [\<lparr>edge_from = Some X, edge_to = Some Y, edge_direction = Some ''bidirectional''\<rparr>]
             = Inr (outgoing, incoming) \<and>
           Y \<in> set (neighbors_of outgoing X) \<and> X \<in> set (neighbors_of incoming Y) \<and>
           X \<in> set (neighbors_of outgoing Y) \<and> Y \<in> set (neighbors_of incoming X))"
  using assms
  by (simp add: build_neighbor_maps_def process_edge_def add_edge_def Let_def
        empty_lists_apply neighbors_of_def)

theorem single_edge_direction_witness:
  "(\<exists>outgoing incoming.
      build_neighbor_maps
        [\<lparr>node_id = ''a'', node_label = ''Ann'', node_systemPrompt = None\<rparr>,
         \<lparr>node_id = ''b'', node_label = ''Bob'', node_systemPrompt = None\<rparr>]
        [\<lparr>edge_from = Some ''a'', edge_to = Some ''b'', edge_direction = Some ''a_to_b''\<rparr>]
        = Inr (outgoing, incoming) \<and>
      ''b'' \<in> set (neighbors_of outgoing ''a'') \<and> ''a'' \<in> set (neighbors_of incoming ''b'') \<and>
      ''a'' \<notin> set (neighbors_of outgoing ''b'') \<and> ''b'' \<notin> set (neighbors_of incoming ''a'')) \<and>
   (\<exists>outgoing incoming.
      build_neighbor_maps
        [\<lparr>node_id = ''a'', node_label = ''Ann'', node_systemPrompt = None\<rparr>,
         \<lparr>node_id = ''b'', node_label = ''Bob'', node_systemPrompt = None\<rparr>]
        [\<lparr>edge_from = Some ''a'', edge_to = Some ''b'', edge_direction = Some ''bidirectional''\<rparr>]
        = Inr (outgoing, incoming) \<and>
      ''b'' \<in> set (neighbors_of outgoing ''a'') \<and> ''a'' \<in> set (neighbors_of incoming ''b'') \<and>
      ''a'' \<in> set (neighbors_of outgoing ''b'') \<and> ''b'' \<in> set (neighbors_of incoming ''a''))"
  using single_edge_direction
    [of "''a''" "[\<lparr>node_id = ''a'', node_label = ''Ann'', node_systemPrompt = None\<rparr>,
         \<lparr>node_id = ''b'', node_label = ''Bob'', node_systemPrompt = None\<rparr>]" "''b''"]
  by simp

section \<open>Properties of the response parser\<close>

lemma empty_comments_apply:
  "empty_comments nids k = (if k \<in> set nids then Some [] else None)"
  by (induction nids) auto

lemma dom_empty_comments: "dom (empty_comments nids) = set nids"
  by (auto simp: dom_def empty_comments_apply)

lemma fill_missing_apply:
  "fill_missing nids comments k =
     (case comments k of Some c \<Rightarrow> Some c | None \<Rightarrow> if k \<in> set nids then Some [] else None)"
  by (induction nids arbitrary: comments) (auto split: option.splits)

lemma dom_fill_missing: "dom (fill_missing nids comments) = dom comments \<union> set nids"
  by (auto simp: dom_def fill_missing_apply split: option.splits if_splits)

lemma record_comments_dom:
  "dom (record_comments env l2i expected ps comments) \<subseteq> dom comments \<union> set expected"
proof (induction ps arbitrary: comments)
  case Nil
  show ?case by simp
next
  case (Cons p ps)
  obtain name v where p: "p = (name, v)" by (cases p)
  show ?case
  proof (cases "l2i (py_lower (py_strip name))")
    case None
    with Cons.IH [of comments] p show ?thesis by simp
  next
    case (Some nid)
    show ?thesis
    proof (cases "nid \<in> set expected")
      case False
      with Cons.IH [of comments] p Some show ?thesis by simp
    next
      case True
      have "dom (comments(nid \<mapsto> py_strip (py_str env v))) \<union> set expected
              \<subseteq> dom comments \<union> set expected"
        using True by auto
      with Cons.IH [of "comments(nid \<mapsto> py_strip (py_str env v))"]
      have "dom (record_comments env l2i expected ps
                   (comments(nid \<mapsto> py_strip (py_str env v))))
              \<subseteq> dom comments \<union> set expected"
        by (rule subset_trans)
      with p Some True show ?thesis by simp
    qed
  qed
qed

lemma extract_fields_dom:
  assumes "extract_fields env data main_text expected labels round_num = Inr (m, p, c)"
  shows "dom c = set expected"
proof -
  from assms obtain comments where c: "c = fill_missing expected comments"
    and d: "dom comments \<subseteq> set expected"
    unfolding extract_fields_def Let_def
    using record_comments_dom [of env "label_to_id_from labels Map.empty" expected _ Map.empty]
    by (auto split: sum.splits if_splits)
  then show ?thesis by (auto simp: dom_fill_missing)
qed

lemma fallback_dom: "fallback text expected = Inr (m, p, c) \<Longrightarrow> dom c = set expected"
  by (clarsimp simp: fallback_def dom_empty_comments)

lemma parse_summary_json_cases:
  assumes "parse_summary_json env text expected labels round_num = r"
  shows "r = fallback text expected \<or> (\<exists>e. r = Inl e) \<or>
         (\<exists>data m_start m_end. re_search 0 text = Some (m_start, m_end) \<and>
            r = extract_fields env data (py_strip (take m_start text)) expected labels round_num)"
  using assms
  unfolding parse_summary_json_def Let_def
  by (auto split: option.splits prod.splits if_splits sum.splits)

lemma parse_summary_json_dom:
  assumes "parse_summary_json env text expected labels round_num = Inr (m, p, c)"
  shows "dom c = set expected"
  using parse_summary_json_cases [OF assms]
  by (auto dest: fallback_dom [OF sym] extract_fields_dom [OF sym])





lemma py_find_ge: "- 1 \<le> py_find c s"
  by (induction s) (auto simp: Let_def)

lemma py_find_none_iff: "py_find c s = - 1 \<longleftrightarrow> c \<notin> set s"
proof (induction s)
  case Nil
  show ?case by simp
next
  case (Cons x xs)
  from py_find_ge [of c xs] have "py_find c xs + 1 \<noteq> - 1" by simp
  with Cons show ?case by (auto simp: Let_def)
qed

lemma py_find_neq_iff: "py_find c s \<noteq> - 1 \<longleftrightarrow> c \<in> set s"
  by (simp add: py_find_none_iff)








lemmas json_eval = json_loads_def scan_word_def scan_int_def scan_frac_def scan_exp_def
  is_json_ws_def punct_def unescape_def hex_bits_def unicode_escape_def parse_step_def
  value_start_def parse_end_def is_digit_def

lemmas parse_eval = parse_summary_json_def re_match_at_def marker_at_def py_lower_def
  py_isupper_def py_strip_def py_isspace_def fallback_def extract_fields_def
  json_candidate_def Let_def

text \<open>
  The parser on a well-formed reply of round 1 for a node without outgoing neighbors.
\<close>

lemma parse_summary_json_round1_example:
  assumes "0 < max_nesting env"
  shows \<open>parse_summary_json env ''I think X.\<newline>SUMMARY_JSON:\<newline>{"position": "X is good"}'' [] [] 1
     = Inr (''I think X.'', ''X is good'', Map.empty)\<close>
  using assms by (simp add: parse_eval json_eval)

text \<open>
  The parser on a reply of round 2 whose comments are a list and a number: the comment
  recorded is the string form of the value.
\<close>

lemma parse_summary_json_round2_example:
  assumes "3 \<le> max_nesting env"
  shows \<open>parse_summary_json env
       ''I agree.\<newline>SUMMARY_JSON:\<newline>{"position": "yes", "comments": {"Bob": ["x", 1], "Cy": 2.5}}''
       [''b'', ''c''] [(''a'', ''Ann''), (''b'', ''Bob''), (''c'', ''Cy'')] 2
     = Inr (''I agree.'', ''yes'',
            [''b'' \<mapsto> ''['x', 1]'', ''c'' \<mapsto> py_strip (float_str env ''2.5'')])\<close>
  using assms
  by (simp add: parse_eval json_eval repr_str_def repr_char_def py_isprintable_def)





text \<open>The parser once the brace scan has found a candidate.\<close>

lemma parse_summary_json_candidate:
  assumes "re_search 0 text = Some (m_start, m_end)"
    and "py_find (CHR ''{'') (py_strip (drop m_end text)) \<noteq> - 1"
    and "find_json_end 0 (py_find (CHR ''{'') (py_strip (drop m_end text)))
           (drop (nat (py_find (CHR ''{'') (py_strip (drop m_end text))))
              (py_strip (drop m_end text))) \<noteq> - 1"
  shows "parse_summary_json env text expected labels round_num =
           (case json_loads env (json_candidate (py_strip (drop m_end text))) of
              Inl e \<Rightarrow>
                if e = JSONDecodeError \<or> e = ValueError then fallback text expected else Inl e
            | Inr data \<Rightarrow>
                extract_fields env data (py_strip (take m_start text)) expected labels round_num)"
  using assms by (simp add: parse_summary_json_def json_candidate_def Let_def)



text \<open>When the decoder raises anything else, the parser raises it too.\<close>

lemma parse_summary_json_decoder_raises:
  assumes "re_search 0 text = Some (m_start, m_end)"
    and "CHR ''{'' \<in> set (py_strip (drop m_end text))"
    and "find_json_end 0 (py_find (CHR ''{'') (py_strip (drop m_end text)))
           (drop (nat (py_find (CHR ''{'') (py_strip (drop m_end text))))
              (py_strip (drop m_end text))) \<noteq> - 1"
    and "json_loads env (json_candidate (py_strip (drop m_end text))) = Inl e"
    and "e \<noteq> JSONDecodeError" and "e \<noteq> ValueError"
  shows "parse_summary_json env text expected_neighbors labels round_num = Inl e"
proof -
  from assms(2) have "py_find (CHR ''{'') (py_strip (drop m_end text)) \<noteq> - 1"
    by (simp add: py_find_none_iff)
  from parse_summary_json_candidate [OF assms(1) this assms(3)] assms(4-6)
  show ?thesis by simp
qed




text \<open>
  The two replies of the next theorems, on every interpreter whose decoder can enter a
  container at all.
\<close>

lemma brace_in_string_any_interpreter:
  assumes "0 < max_nesting env"
  shows \<open>json_loads env ''{"position": "use } carefully"}''
     = Inr (JObject [(''position'', JString ''use } carefully'')]) \<and>
   json_candidate ''{"position": "use } carefully"}'' = ''{"position": "use }'' \<and>
   json_loads env ''{"position": "use }'' = Inl JSONDecodeError \<and>
   parse_summary_json env ''My view.\<newline>SUMMARY_JSON:\<newline>{"position": "use } carefully"}''
       [''b''] [(''a'', ''Ann''), (''b'', ''Bob'')] 1
     = Inr (''My view.\<newline>SUMMARY_JSON:\<newline>{"position": "use } carefully"}'', [],
            [''b'' \<mapsto> []])\<close>
  using assms by (simp add: parse_eval json_eval)

lemma comments_not_object_any_interpreter:
  assumes "0 < max_nesting env"
  shows \<open>parse_summary_json env
     ''I agree.\<newline>SUMMARY_JSON:\<newline>{"position": "yes", "comments": "none"}''
     [''b''] [(''a'', ''Ann''), (''b'', ''Bob'')] 2
   = Inl AttributeError\<close>
  using assms by (simp add: parse_eval json_eval)

text \<open>
  C10. The reply below ends with the marker and a valid JSON object whose string value
  holds a closing brace. The brace scan counts that brace, so the candidate ends inside
  the string literal, the decoder rejects it, and the parser returns the whole reply as
  main text with the empty position and an empty comment for the expected neighbor.
\<close>

theorem brace_in_string_falls_back:
  \<open>json_loads sample_env ''{"position": "use } carefully"}''
     = Inr (JObject [(''position'', JString ''use } carefully'')]) \<and>
   json_candidate ''{"position": "use } carefully"}'' = ''{"position": "use }'' \<and>
   json_loads sample_env ''{"position": "use }'' = Inl JSONDecodeError \<and>
   parse_summary_json sample_env
       ''My view.\<newline>SUMMARY_JSON:\<newline>{"position": "use } carefully"}''
       [''b''] [(''a'', ''Ann''), (''b'', ''Bob'')] 1
     = Inr (''My view.\<newline>SUMMARY_JSON:\<newline>{"position": "use } carefully"}'', [],
            [''b'' \<mapsto> []])\<close>
proof -
  have "0 < max_nesting sample_env" by (simp add: sample_env_def)
  then show ?thesis by (rule brace_in_string_any_interpreter)
qed

text \<open>
  C2. In round 2, on a reply whose envelope gives \<^verbatim>\<open>"comments"\<close> a string instead of an
  object, the call \<^verbatim>\<open>comments_dict.items()\<close> raises \<^verbatim>\<open>AttributeError\<close>, which the handler
  for \<^verbatim>\<open>(json.JSONDecodeError, ValueError)\<close> does not catch: the parser returns no
  comments mapping at all.
\<close>

theorem parse_summary_json_comments_not_object:
  \<open>parse_summary_json sample_env
     ''I agree.\<newline>SUMMARY_JSON:\<newline>{"position": "yes", "comments": "none"}''
     [''b''] [(''a'', ''Ann''), (''b'', ''Bob'')] 2
   = Inl AttributeError\<close>
proof -
  have "0 < max_nesting sample_env" by (simp add: sample_env_def)
  then show ?thesis by (rule comments_not_object_any_interpreter)
qed

section \<open>Properties of the prompt builder\<close>

lemma sublist_append_sep:
  assumes "c \<notin> set w"
  shows "sublist w (a @ c # b) \<longleftrightarrow> sublist w a \<or> sublist w (c # b)"
proof
  assume "sublist w (a @ c # b)"
  then consider "sublist w a" | "sublist w (c # b)"
    | xs1 xs2 where "w = xs1 @ xs2" "suffix xs1 a" "prefix xs2 (c # b)"
    unfolding sublist_append by blast
  then show "sublist w a \<or> sublist w (c # b)"
  proof cases
    case 3
    show ?thesis
    proof (cases xs2)
      case Nil
      with 3 have "suffix w a" by simp
      then obtain zs where "a = zs @ w @ []" by (auto simp: suffix_def)
      then have "sublist w a" unfolding sublist_def by blast
      then show ?thesis by simp
    next
      case (Cons x xs)
      with 3 have "x = c" by simp
      with 3 Cons assms show ?thesis by simp
    qed
  qed simp_all
next
  assume "sublist w a \<or> sublist w (c # b)"
  then show "sublist w (a @ c # b)"
    by (auto simp: sublist_append)
qed

lemma no_comments_in_round1: "\<not> sublist ''comments'' round1_instructions"
  unfolding round1_instructions_def by (simp add: sublist_Cons_right)

lemma no_marker_in_concise:
  "\<not> sublist ''SUMMARY_JSON'' ''\<newline>\<newline>Keep your response concise.''"
  "\<not> sublist ''comments'' ''\<newline>\<newline>Keep your response concise.''"
  "\<not> sublist ''SUMMARY_JSON'' ''You are a participant in a multi-agent debate.''"
  "\<not> sublist ''comments'' ''You are a participant in a multi-agent debate.''"
  by (simp_all add: sublist_Cons_right)

lemma prompt_base_free:
  assumes "\<not> sublist w custom_prompt"
    and "\<not> sublist w ''You are a participant in a multi-agent debate.''"
    and "\<not> sublist w ''\<newline>\<newline>Keep your response concise.''"
    and "CHR 0x0A \<notin> set w"
  shows "\<not> sublist w (prompt_base custom_prompt)"
proof -
  have "''\<newline>\<newline>Keep your response concise.'' = CHR 0x0A # ''\<newline>Keep your response concise.''"
    by simp
  then show ?thesis
    using assms unfolding prompt_base_def
    by (simp only: sublist_append_sep [OF assms(4)] split: if_splits) simp
qed

text \<open>
  C8. In round 1 the system prompt is the base text (the custom fragment or the default
  sentence, then the instruction to be concise) followed by a fixed block that does not
  mention \<^verbatim>\<open>comments\<close>; so the prompt mentions \<^verbatim>\<open>comments\<close> only if the custom fragment
  does. In a later round, for a node without outgoing neighbors, the system prompt is the
  base text and nothing else; so it mentions \<^verbatim>\<open>SUMMARY_JSON\<close> only if the custom fragment
  does.
\<close>

theorem system_prompt_instruction_blocks:
  "build_system_prompt custom_prompt outgoing_neighbors labels 1
     = prompt_base custom_prompt @ round1_instructions \<and>
   \<not> sublist ''comments'' round1_instructions \<and>
   (\<not> sublist ''comments'' custom_prompt \<longrightarrow>
      \<not> sublist ''comments'' (build_system_prompt custom_prompt outgoing_neighbors labels 1)) \<and>
   (1 < round_num \<longrightarrow>
      build_system_prompt custom_prompt [] labels round_num = prompt_base custom_prompt \<and>
      (\<not> sublist ''SUMMARY_JSON'' custom_prompt \<longrightarrow>
         \<not> sublist ''SUMMARY_JSON'' (build_system_prompt custom_prompt [] labels round_num)))"
proof (intro conjI impI)
  show r1: "build_system_prompt custom_prompt outgoing_neighbors labels 1
              = prompt_base custom_prompt @ round1_instructions"
    by (simp add: build_system_prompt_def)
  show "\<not> sublist ''comments'' round1_instructions"
    by (rule no_comments_in_round1)
  show "\<not> sublist ''comments'' (build_system_prompt custom_prompt outgoing_neighbors labels 1)"
    if c: "\<not> sublist ''comments'' custom_prompt"
  proof -
    have b: "\<not> sublist ''comments'' (prompt_base custom_prompt)"
      by (rule prompt_base_free [OF c no_marker_in_concise(4) no_marker_in_concise(2)]) simp
    have "round1_instructions = CHR 0x0A # tl round1_instructions"
      by (simp add: round1_instructions_def)
    then have "sublist ''comments'' (prompt_base custom_prompt @ round1_instructions) \<longleftrightarrow>
               sublist ''comments'' (prompt_base custom_prompt) \<or>
               sublist ''comments'' round1_instructions"
      using sublist_append_sep [of "CHR 0x0A" "''comments''" "prompt_base custom_prompt"
              "tl round1_instructions"]
      by simp
    with b no_comments_in_round1 show ?thesis unfolding r1 by simp
  qed
  show l: "build_system_prompt custom_prompt [] labels round_num = prompt_base custom_prompt"
    if "1 < round_num"
    using that by (simp add: build_system_prompt_def)
  show "\<not> sublist ''SUMMARY_JSON'' (build_system_prompt custom_prompt [] labels round_num)"
    if "1 < round_num" and c: "\<not> sublist ''SUMMARY_JSON'' custom_prompt"
    unfolding l [OF that(1)]
    by (rule prompt_base_free [OF c no_marker_in_concise(3) no_marker_in_concise(1)]) simp
qed

theorem system_prompt_instruction_blocks_witness:
  "\<not> sublist ''comments'' (build_system_prompt ''Argue as an economist.'' [''b''] [(''b'', ''Bob'')] 1) \<and>
   (1::int) < 2 \<and>
   build_system_prompt ''Argue as an economist.'' [] [(''b'', ''Bob'')] 2
     = ''Argue as an economist.\<newline>\<newline>Keep your response concise.'' \<and>
   \<not> sublist ''SUMMARY_JSON'' (build_system_prompt ''Argue as an economist.'' [] [(''b'', ''Bob'')] 2)"
proof -
  have c: "\<not> sublist ''comments'' ''Argue as an economist.''"
    and s: "\<not> sublist ''SUMMARY_JSON'' ''Argue as an economist.''"
    by (simp_all add: sublist_Cons_right)
  have p: "prompt_base ''Argue as an economist.''
             = ''Argue as an economist.\<newline>\<newline>Keep your response concise.''"
    by (simp add: prompt_base_def)
  have r: "(1::int) < 2" by simp
  note inst = system_prompt_instruction_blocks
         [of "''Argue as an economist.''" "[''b'']" "[(''b'', ''Bob'')]" 2]
  from inst c have "\<not> sublist ''comments''
      (build_system_prompt ''Argue as an economist.'' [''b''] [(''b'', ''Bob'')] 1)"
    by blast
  moreover from inst r have "build_system_prompt ''Argue as an economist.'' [] [(''b'', ''Bob'')] 2
      = prompt_base ''Argue as an economist.''"
    by blast
  moreover from inst r s have "\<not> sublist ''SUMMARY_JSON''
      (build_system_prompt ''Argue as an economist.'' [] [(''b'', ''Bob'')] 2)"
    by blast
  ultimately show ?thesis using r p by (simp only: simp_thms)
qed

lemma gather_responses_eq:
  "gather_responses labels prev_round ids acc =
     acc @ map (\<lambda>n. label_of labels n @ '': '' @ the (prev_round n))
             (filter (\<lambda>n. prev_round n \<noteq> None \<and> prev_round n \<noteq> Some []) ids)"
  by (induction ids arbitrary: acc) (auto split: option.splits)

lemma sublist_py_join: "x \<in> set xs \<Longrightarrow> sublist x (py_join sep xs)"
proof (induction sep xs rule: py_join.induct)
  case (1 sep)
  then show ?case by simp
next
  case (2 sep y)
  then show ?case by simp
next
  case (3 sep y z zs)
  show ?case
  proof (cases "x = y")
    case True
    then show ?thesis by simp
  next
    case False
    with 3 have "sublist x (py_join sep (z # zs))" by simp
    then obtain ps ss where "py_join sep (z # zs) = ps @ x @ ss"
      unfolding sublist_def by blast
    then have "py_join sep (y # z # zs) = (y @ sep @ ps) @ x @ ss" by simp
    then show ?thesis unfolding sublist_def by blast
  qed
qed

text \<open>
  C5. In a round other than the first, let the lines be \<open>label: text\<close> for the incoming
  neighbors of the node, in their order, whose main text of the previous round is present
  and not empty. If there is such a line, the user turn presents every line as a solution
  of another agent and restates the question, and each line and the question occur in
  it; if there is none, the user turn is the template that says there are no solutions
  yet and restates the question.
\<close>

theorem user_prompt_followup:
  assumes "1 < round_num"
    and "prev_round =
           (case by_round (round_num - 1) of None \<Rightarrow> Map.empty | Some d \<Rightarrow> d)"
    and "lines = map (\<lambda>n. label_of labels n @ '': '' @ the (prev_round n))
                   (filter (\<lambda>n. prev_round n \<noteq> None \<and> prev_round n \<noteq> Some [])
                      (neighbors_of incoming nid))"
    and "prompt = user_prompt question labels incoming by_round round_num rounds nid"
  shows "(lines \<noteq> [] \<longrightarrow>
            prompt = ''These are the solutions to the problem from other agents:\<newline>''
              @ py_join ''\<newline>'' (map (\<lambda>l. ''One agent solution: '' @ l) lines)
              @ ''\<newline>\<newline>Using the solutions from other agents as additional information,\<newline>can you provide your answer to the problem?\<newline>The original problem is ''
              @ question @ ''\<newline>'' \<and>
            (\<forall>l \<in> set lines. sublist l prompt)) \<and>
         (lines = [] \<longrightarrow>
            prompt = ''There are no solutions from other agents yet.\<newline>Can you provide your answer to the problem?\<newline>The original problem is ''
              @ question @ ''\<newline>'') \<and>
         sublist question prompt"
proof -
  define sol where "sol = (\<lambda>l. ''One agent solution: '' @ l)"
  define block where "block = py_join ''\<newline>'' (map sol lines)"
  define tail where "tail = ''\<newline>\<newline>Using the solutions from other agents as additional information,\<newline>can you provide your answer to the problem?\<newline>The original problem is ''"
  note fold_block = block_def [unfolded sol_def, symmetric]
  from assms have p: "prompt = build_followup_prompt question lines round_num rounds"
    by (simp add: user_prompt_def Let_def gather_responses_eq)
  have a: "lines = [] \<longrightarrow>
            prompt = ''There are no solutions from other agents yet.\<newline>Can you provide your answer to the problem?\<newline>The original problem is ''
              @ question @ ''\<newline>''"
    unfolding p by (simp add: build_followup_prompt_def)
  have b: "prompt = ''These are the solutions to the problem from other agents:\<newline>''
              @ block @ tail @ question @ ''\<newline>''"
    if "lines \<noteq> []"
    using that unfolding p build_followup_prompt_def Let_def fold_block tail_def by simp
  have c: "sublist l prompt" if n: "lines \<noteq> []" and l: "l \<in> set lines" for l
  proof -
    from l have "sol l \<in> set (map sol lines)" by simp
    from sublist_py_join [OF this, of "''\<newline>''"] obtain ps ss
      where j: "block = ps @ sol l @ ss"
      unfolding sublist_def block_def by blast
    have "prompt = (''These are the solutions to the problem from other agents:\<newline>''
              @ ps @ ''One agent solution: '') @ l @ (ss @ tail @ question @ ''\<newline>'')"
      unfolding b [OF n] j sol_def by simp
    then show ?thesis unfolding sublist_def by blast
  qed
  have d: "sublist question prompt"
  proof (cases "lines = []")
    case True
    with a have "prompt = ''There are no solutions from other agents yet.\<newline>Can you provide your answer to the problem?\<newline>The original problem is ''
              @ question @ ''\<newline>''" by simp
    then show ?thesis unfolding sublist_def by blast
  next
    case False
    have "prompt = (''These are the solutions to the problem from other agents:\<newline>''
              @ block @ tail) @ question @ ''\<newline>''"
      unfolding b [OF False] by simp
    then show ?thesis unfolding sublist_def by blast
  qed
  from a b c d show ?thesis unfolding fold_block [symmetric] tail_def by blast
qed

theorem user_prompt_followup_witness:
  "user_prompt ''Cats or dogs?'' [(''a'', ''Ann''), (''b'', ''Bob'')] [''a'' \<mapsto> [], ''b'' \<mapsto> [''a'']]
       [1 \<mapsto> [''a'' \<mapsto> ''Cats.'', ''b'' \<mapsto> ''Dogs.'']] 2 2 ''b''
     = ''These are the solutions to the problem from other agents:\<newline>One agent solution: Ann: Cats.\<newline>\<newline>Using the solutions from other agents as additional information,\<newline>can you provide your answer to the problem?\<newline>The original problem is Cats or dogs?\<newline>'' \<and>
   sublist ''Ann: Cats.''
     (user_prompt ''Cats or dogs?'' [(''a'', ''Ann''), (''b'', ''Bob'')] [''a'' \<mapsto> [], ''b'' \<mapsto> [''a'']]
       [1 \<mapsto> [''a'' \<mapsto> ''Cats.'', ''b'' \<mapsto> ''Dogs.'']] 2 2 ''b'') \<and>
   user_prompt ''Cats or dogs?'' [(''a'', ''Ann''), (''b'', ''Bob'')] [''a'' \<mapsto> [], ''b'' \<mapsto> [''a'']]
       [1 \<mapsto> [''a'' \<mapsto> ''Cats.'', ''b'' \<mapsto> ''Dogs.'']] 2 2 ''a''
     = ''There are no solutions from other agents yet.\<newline>Can you provide your answer to the problem?\<newline>The original problem is Cats or dogs?\<newline>''"
proof -
  let ?labels = "[(''a'', ''Ann''), (''b'', ''Bob'')]"
  let ?incoming = "[''a'' \<mapsto> [], ''b'' \<mapsto> [''a'']] :: neighbor_map"
  let ?prev = "[''a'' \<mapsto> ''Cats.'', ''b'' \<mapsto> ''Dogs.'']"
  let ?by_round = "[(1::int) \<mapsto> ?prev]"
  have r: "(1::int) < 2" by simp
  have pr: "?prev = (case ?by_round (2 - 1) of None \<Rightarrow> Map.empty | Some d \<Rightarrow> d)" by simp
  have lb: "[''Ann: Cats.''] = map (\<lambda>n. label_of ?labels n @ '': '' @ the (?prev n))
                   (filter (\<lambda>n. ?prev n \<noteq> None \<and> ?prev n \<noteq> Some [])
                      (neighbors_of ?incoming ''b''))"
    by (simp add: neighbors_of_def label_of_def)
  have la: "[] = map (\<lambda>n. label_of ?labels n @ '': '' @ the (?prev n))
                   (filter (\<lambda>n. ?prev n \<noteq> None \<and> ?prev n \<noteq> Some [])
                      (neighbors_of ?incoming ''a''))"
    by (simp add: neighbors_of_def label_of_def)
  note b = user_prompt_followup
    [where round_num = 2 and prev_round = ?prev and by_round = ?by_round
       and lines = "[''Ann: Cats.'']" and labels = ?labels and incoming = ?incoming
       and nid = "''b''" and question = "''Cats or dogs?''" and rounds = 2
       and prompt = "user_prompt ''Cats or dogs?'' ?labels ?incoming ?by_round 2 2 ''b''",
     OF r pr lb refl]
  note a = user_prompt_followup
    [where round_num = 2 and prev_round = ?prev and by_round = ?by_round
       and lines = "[]" and labels = ?labels and incoming = ?incoming
       and nid = "''a''" and question = "''Cats or dogs?''" and rounds = 2
       and prompt = "user_prompt ''Cats or dogs?'' ?labels ?incoming ?by_round 2 2 ''a''",
     OF r pr la refl]
  from b have "user_prompt ''Cats or dogs?'' ?labels ?incoming ?by_round 2 2 ''b''
     = ''These are the solutions to the problem from other agents:\<newline>One agent solution: Ann: Cats.\<newline>\<newline>Using the solutions from other agents as additional information,\<newline>can you provide your answer to the problem?\<newline>The original problem is Cats or dogs?\<newline>''"
    by simp
  moreover have "sublist ''Ann: Cats.''
     (user_prompt ''Cats or dogs?'' ?labels ?incoming ?by_round 2 2 ''b'')"
  proof -
    from b have "\<forall>l \<in> set [''Ann: Cats.''].
        sublist l (user_prompt ''Cats or dogs?'' ?labels ?incoming ?by_round 2 2 ''b'')"
      by blast
    then show ?thesis by simp
  qed
  moreover from a have "user_prompt ''Cats or dogs?'' ?labels ?incoming ?by_round 2 2 ''a''
     = ''There are no solutions from other agents yet.\<newline>Can you provide your answer to the problem?\<newline>The original problem is Cats or dogs?\<newline>''"
    by simp
  ultimately show ?thesis by (simp only: simp_thms)
qed

section \<open>The comments recorded by the response parser\<close>







section \<open>Properties of the scheduler\<close>

lemma is_turns_append:
  "is_turns src xs \<Longrightarrow> is_turns src ys \<Longrightarrow> is_turns src (xs @ ys)"
  by (induction src xs rule: is_turns.induct) auto

lemma is_turns_even: "is_turns src xs \<Longrightarrow> even (length xs)"
  by (induction src xs rule: is_turns.induct) auto

text \<open>What a completed step does to the state and which events it yields.\<close>

lemma debate_step_Inr:
  assumes "debate_step ctx round_num n st = Inr (st', evs)"
  shows "\<exists>h0 rest content main_text position comments d.
           histories st (node_id n) = Some (h0 # rest) \<and>
           generate ctx (node_id n)
             (SystemMessage (system_prompt_of ctx n round_num) # rest @
              [UserMessage (user_prompt (ctx_question ctx) (ctx_labels ctx) (ctx_incoming ctx)
                 (responses_by_round st) round_num (ctx_rounds ctx) (node_id n)) ''user''])
             = Inr content \<and>
           parse_summary_json (ctx_env ctx) content (neighbors_of (ctx_outgoing ctx) (node_id n))
             (ctx_labels ctx) round_num = Inr (main_text, position, comments) \<and>
           responses_by_round st round_num = Some d \<and>
           st' = st\<lparr>histories := (histories st)(node_id n \<mapsto>
                       SystemMessage (system_prompt_of ctx n round_num) # rest @
                       [UserMessage (user_prompt (ctx_question ctx) (ctx_labels ctx)
                          (ctx_incoming ctx) (responses_by_round st) round_num (ctx_rounds ctx)
                          (node_id n)) ''user'',
                        AssistantMessage content (label_of (ctx_labels ctx) (node_id n))]),
                     responses_by_round := (responses_by_round st)
                       (round_num \<mapsto> d(node_id n \<mapsto> main_text))\<rparr> \<and>
           evs = step_events (node_id n) (neighbors_of (ctx_outgoing ctx) (node_id n))
                   main_text position comments round_num"
proof -
  let ?prompt = "user_prompt (ctx_question ctx) (ctx_labels ctx) (ctx_incoming ctx)
                   (responses_by_round st) round_num (ctx_rounds ctx) (node_id n)"
  let ?sys = "SystemMessage (system_prompt_of ctx n round_num)"
  from assms obtain history where h: "histories st (node_id n) = Some history"
    and ne: "history \<noteq> []"
    by (auto simp: debate_step_def Let_def split: option.splits if_splits)
  then obtain h0 rest where hr: "history = h0 # rest" by (cases history) auto
  from assms h hr obtain content
    where g: "generate ctx (node_id n) (?sys # rest @ [UserMessage ?prompt ''user'']) = Inr content"
    by (auto simp: debate_step_def Let_def split: sum.splits)
  from assms h hr g obtain main_text position comments
    where p: "parse_summary_json (ctx_env ctx) content (neighbors_of (ctx_outgoing ctx) (node_id n))
                (ctx_labels ctx) round_num = Inr (main_text, position, comments)"
    by (auto simp: debate_step_def Let_def split: sum.splits)
  from assms h hr g p obtain d where d: "responses_by_round st round_num = Some d"
    by (auto simp: debate_step_def Let_def split: option.splits)
  from assms h hr g p d
  have "st' = st\<lparr>histories := (histories st)(node_id n \<mapsto>
                       ?sys # rest @
                       [UserMessage ?prompt ''user'',
                        AssistantMessage content (label_of (ctx_labels ctx) (node_id n))]),
                     responses_by_round := (responses_by_round st)
                       (round_num \<mapsto> d(node_id n \<mapsto> main_text))\<rparr>"
    and "evs = step_events (node_id n) (neighbors_of (ctx_outgoing ctx) (node_id n))
                   main_text position comments round_num"
    by (simp_all add: debate_step_def Let_def)
  with h hr g p d show ?thesis by blast
qed

text \<open>
  C1. A step of the scheduler that completes has received a reply of the model client
  and has parsed it, and it yields the position event of the node followed by its message
  events: for a node without outgoing neighbors the single message to \<^verbatim>\<open>none\<close> with the
  main text and the empty summary, otherwise one message per outgoing neighbor, in their
  order, each with the main text and with the comment that the parser returned for that
  neighbor.
\<close>

theorem debate_step_events:
  assumes "debate_step ctx round_num n st = Inr (st', evs)"
    and "recipients = neighbors_of (ctx_outgoing ctx) (node_id n)"
  shows "\<exists>history content main_text position comments.
           generate ctx (node_id n) history = Inr content \<and>
           parse_summary_json (ctx_env ctx) content recipients (ctx_labels ctx) round_num
             = Inr (main_text, position, comments) \<and>
           dom comments = set recipients \<and>
           evs = PositionEvent (node_id n) position round_num #
                 (if recipients = [] then [MessageEvent (node_id n) ''none'' main_text [] round_num]
                  else map (\<lambda>to_id. MessageEvent (node_id n) to_id main_text
                                      (the (comments to_id)) round_num) recipients)"
proof -
  from debate_step_Inr [OF assms(1)] obtain history content main_text position comments
    where g: "generate ctx (node_id n) history = Inr content"
      and p: "parse_summary_json (ctx_env ctx) content recipients (ctx_labels ctx) round_num
                = Inr (main_text, position, comments)"
      and e: "evs = step_events (node_id n) recipients main_text position comments round_num"
    unfolding assms(2) by blast
  from parse_summary_json_dom [OF p] have d: "dom comments = set recipients" .
  have "map (\<lambda>to_id. MessageEvent (node_id n) to_id main_text
                (case comments to_id of None \<Rightarrow> [] | Some c \<Rightarrow> c) round_num) recipients
        = map (\<lambda>to_id. MessageEvent (node_id n) to_id main_text
                (the (comments to_id)) round_num) recipients"
  proof (rule map_cong [OF refl])
    fix to_id assume "to_id \<in> set recipients"
    with d obtain c where "comments to_id = Some c" by auto
    then show "MessageEvent (node_id n) to_id main_text
                (case comments to_id of None \<Rightarrow> [] | Some c \<Rightarrow> c) round_num
               = MessageEvent (node_id n) to_id main_text (the (comments to_id)) round_num"
      by simp
  qed
  with e have "evs = PositionEvent (node_id n) position round_num #
                 (if recipients = [] then [MessageEvent (node_id n) ''none'' main_text [] round_num]
                  else map (\<lambda>to_id. MessageEvent (node_id n) to_id main_text
                                      (the (comments to_id)) round_num) recipients)"
    by (simp add: step_events_def)
  with g p d show ?thesis by blast
qed

theorem debate_step_events_witness:
  \<open>(\<exists>st'. debate_step
       \<lparr>ctx_env = sample_env,
        ctx_question = ''Is X good?'', ctx_labels = [(''a'', ''Ann''), (''b'', ''Bob'')],
        ctx_outgoing = [''a'' \<mapsto> [''b''], ''b'' \<mapsto> []],
        ctx_incoming = [''a'' \<mapsto> [], ''b'' \<mapsto> [''a'']], ctx_rounds = 1,
        generate = (\<lambda>nid history.
          Inr ''I think X.\<newline>SUMMARY_JSON:\<newline>{"position": "X is good"}'')\<rparr>
       1 \<lparr>node_id = ''a'', node_label = ''Ann'', node_systemPrompt = None\<rparr>
       \<lparr>histories = [''a'' \<mapsto> [SystemMessage []], ''b'' \<mapsto> [SystemMessage []]],
        responses_by_round = [1 \<mapsto> Map.empty]\<rparr>
     = Inr (st', [PositionEvent ''a'' ''X is good'' 1,
                  MessageEvent ''a'' ''b'' ''I think X.'' [] 1])) \<and>
   (\<exists>st'. debate_step
       \<lparr>ctx_env = sample_env,
        ctx_question = ''Is X good?'', ctx_labels = [(''a'', ''Ann''), (''b'', ''Bob'')],
        ctx_outgoing = [''a'' \<mapsto> [''b''], ''b'' \<mapsto> []],
        ctx_incoming = [''a'' \<mapsto> [], ''b'' \<mapsto> [''a'']], ctx_rounds = 1,
        generate = (\<lambda>nid history.
          Inr ''I think X.\<newline>SUMMARY_JSON:\<newline>{"position": "X is good"}'')\<rparr>
       1 \<lparr>node_id = ''b'', node_label = ''Bob'', node_systemPrompt = None\<rparr>
       \<lparr>histories = [''a'' \<mapsto> [SystemMessage []], ''b'' \<mapsto> [SystemMessage []]],
        responses_by_round = [1 \<mapsto> Map.empty]\<rparr>
     = Inr (st', [PositionEvent ''b'' ''X is good'' 1,
                  MessageEvent ''b'' ''none'' ''I think X.'' [] 1]))\<close>
proof -
  let ?e = sample_env
  let ?reply = \<open>''I think X.\<newline>SUMMARY_JSON:\<newline>{"position": "X is good"}''\<close>
  let ?ctx = "\<lparr>ctx_env = sample_env,
        ctx_question = ''Is X good?'', ctx_labels = [(''a'', ''Ann''), (''b'', ''Bob'')],
        ctx_outgoing = [''a'' \<mapsto> [''b''], ''b'' \<mapsto> []],
        ctx_incoming = [''a'' \<mapsto> [], ''b'' \<mapsto> [''a'']], ctx_rounds = 1,
        generate = (\<lambda>nid history. Inr ?reply)\<rparr>"
  let ?st = "\<lparr>histories = [''a'' \<mapsto> [SystemMessage []], ''b'' \<mapsto> [SystemMessage []]],
        responses_by_round = [(1::int) \<mapsto> Map.empty]\<rparr>"
  let ?a = "\<lparr>node_id = ''a'', node_label = ''Ann'', node_systemPrompt = None\<rparr>"
  let ?b = "\<lparr>node_id = ''b'', node_label = ''Bob'', node_systemPrompt = None\<rparr>"
  have pa: "parse_summary_json ?e ?reply [''b''] [(''a'', ''Ann''), (''b'', ''Bob'')] 1
              = Inr (''I think X.'', ''X is good'', [''b'' \<mapsto> []])"
    by (simp add: parse_eval json_eval sample_env_def)
  have pb: "parse_summary_json ?e ?reply [] [(''a'', ''Ann''), (''b'', ''Bob'')] 1
              = Inr (''I think X.'', ''X is good'', Map.empty)"
    by (simp add: parse_eval json_eval sample_env_def)
  have "\<exists>st' evs. debate_step ?ctx 1 ?a ?st = Inr (st', evs)"
    by (simp add: debate_step_def Let_def neighbors_of_def pa)
  then obtain sa ea where sa: "debate_step ?ctx 1 ?a ?st = Inr (sa, ea)" by blast
  have "\<exists>st' evs. debate_step ?ctx 1 ?b ?st = Inr (st', evs)"
    by (simp add: debate_step_def Let_def neighbors_of_def pb)
  then obtain sb eb where sb: "debate_step ?ctx 1 ?b ?st = Inr (sb, eb)" by blast
  from debate_step_events [OF sa refl] pa
  have "ea = [PositionEvent ''a'' ''X is good'' 1, MessageEvent ''a'' ''b'' ''I think X.'' [] 1]"
    by (auto simp: neighbors_of_def)
  moreover from debate_step_events [OF sb refl] pb
  have "eb = [PositionEvent ''b'' ''X is good'' 1, MessageEvent ''b'' ''none'' ''I think X.'' [] 1]"
    by (auto simp: neighbors_of_def)
  ultimately show ?thesis using sa sb by blast
qed

text \<open>The history of a node after a completed step, and the histories it leaves alone.\<close>

lemma debate_step_history:
  assumes "debate_step ctx round_num n st = Inr (st', evs)"
  shows "\<exists>h0 rest u a.
           histories st (node_id n) = Some (h0 # rest) \<and>
           histories st' (node_id n) =
             Some (SystemMessage (system_prompt_of ctx n round_num) # rest @
                   [UserMessage u ''user'', AssistantMessage a (label_of (ctx_labels ctx) (node_id n))]) \<and>
           (\<forall>k. k \<noteq> node_id n \<longrightarrow> histories st' k = histories st k)"
proof -
  from debate_step_Inr [OF assms] obtain h0 rest content main_text d
    where h: "histories st (node_id n) = Some (h0 # rest)"
      and s: "st' = st\<lparr>histories := (histories st)(node_id n \<mapsto>
                       SystemMessage (system_prompt_of ctx n round_num) # rest @
                       [UserMessage (user_prompt (ctx_question ctx) (ctx_labels ctx)
                          (ctx_incoming ctx) (responses_by_round st) round_num (ctx_rounds ctx)
                          (node_id n)) ''user'',
                        AssistantMessage content (label_of (ctx_labels ctx) (node_id n))]),
                     responses_by_round := (responses_by_round st)
                       (round_num \<mapsto> d(node_id n \<mapsto> main_text))\<rparr>"
    by blast
  from s have "histories st' (node_id n) =
             Some (SystemMessage (system_prompt_of ctx n round_num) # rest @
                   [UserMessage (user_prompt (ctx_question ctx) (ctx_labels ctx)
                          (ctx_incoming ctx) (responses_by_round st) round_num (ctx_rounds ctx)
                          (node_id n)) ''user'',
                    AssistantMessage content (label_of (ctx_labels ctx) (node_id n))])"
    and "\<forall>k. k \<noteq> node_id n \<longrightarrow> histories st' k = histories st k"
    by simp_all
  with h show ?thesis by blast
qed

lemma run_nodes_Cons_Inr:
  assumes "run_nodes ctx round_num (n # ns) st = (evs, Inr st')"
  shows "\<exists>st1 e1 e2. debate_step ctx round_num n st = Inr (st1, e1) \<and>
           run_nodes ctx round_num ns st1 = (e2, Inr st') \<and> evs = e1 @ e2"
  using assms by (auto split: sum.splits prod.splits)

text \<open>
  One pass over nodes with distinct ids: the history of each of them gets the round's
  system message in place of its first entry and one user and one assistant turn at its
  end; no other history changes.
\<close>

lemma run_nodes_history:
  assumes "distinct (map node_id ns)"
    and "run_nodes ctx round_num ns st = (evs, Inr st')"
  shows "(\<forall>k. k \<notin> node_id ` set ns \<longrightarrow> histories st' k = histories st k) \<and>
         (\<forall>n \<in> set ns. \<exists>h0 rest u a.
            histories st (node_id n) = Some (h0 # rest) \<and>
            histories st' (node_id n) =
              Some (SystemMessage (system_prompt_of ctx n round_num) # rest @
                    [UserMessage u ''user'',
                     AssistantMessage a (label_of (ctx_labels ctx) (node_id n))]))"
  using assms
proof (induction ns arbitrary: st evs)
  case Nil
  then show ?case by simp
next
  case (Cons n0 ns)
  from run_nodes_Cons_Inr [OF Cons.prems(2)] obtain st1 e1 e2
    where s1: "debate_step ctx round_num n0 st = Inr (st1, e1)"
      and r: "run_nodes ctx round_num ns st1 = (e2, Inr st')"
    by blast
  from Cons.prems(1) have dn: "distinct (map node_id ns)" and n0: "node_id n0 \<notin> node_id ` set ns"
    by auto
  from Cons.IH [OF dn r]
  have keep: "\<forall>k. k \<notin> node_id ` set ns \<longrightarrow> histories st' k = histories st1 k"
    and upd: "\<forall>n \<in> set ns. \<exists>h0 rest u a.
            histories st1 (node_id n) = Some (h0 # rest) \<and>
            histories st' (node_id n) =
              Some (SystemMessage (system_prompt_of ctx n round_num) # rest @
                    [UserMessage u ''user'',
                     AssistantMessage a (label_of (ctx_labels ctx) (node_id n))])"
    by blast+
  from debate_step_history [OF s1] obtain h0 rest u a
    where h: "histories st (node_id n0) = Some (h0 # rest)"
      and h1: "histories st1 (node_id n0) =
             Some (SystemMessage (system_prompt_of ctx n0 round_num) # rest @
                   [UserMessage u ''user'', AssistantMessage a (label_of (ctx_labels ctx) (node_id n0))])"
      and o: "\<forall>k. k \<noteq> node_id n0 \<longrightarrow> histories st1 k = histories st k"
    by blast
  show ?case
  proof (intro conjI allI impI ballI)
    fix k assume "k \<notin> node_id ` set (n0 # ns)"
    with keep o show "histories st' k = histories st k" by simp
  next
    fix n assume "n \<in> set (n0 # ns)"
    then consider "n = n0" | "n \<in> set ns" by auto
    then show "\<exists>h0 rest u a.
            histories st (node_id n) = Some (h0 # rest) \<and>
            histories st' (node_id n) =
              Some (SystemMessage (system_prompt_of ctx n round_num) # rest @
                    [UserMessage u ''user'',
                     AssistantMessage a (label_of (ctx_labels ctx) (node_id n))])"
    proof cases
      case 1
      from keep n0 have "histories st' (node_id n0) = histories st1 (node_id n0)" by blast
      with h h1 1 show ?thesis by auto
    next
      case 2
      then have "node_id n \<in> node_id ` set ns" by (rule imageI)
      with n0 have "node_id n \<noteq> node_id n0" by metis
      with o have eq: "histories st1 (node_id n) = histories st (node_id n)" by blast
      from upd 2 obtain h0' rest' u' a'
        where "histories st1 (node_id n) = Some (h0' # rest')"
          and "histories st' (node_id n) =
              Some (SystemMessage (system_prompt_of ctx n round_num) # rest' @
                    [UserMessage u' ''user'',
                     AssistantMessage a' (label_of (ctx_labels ctx) (node_id n))])"
        by blast
      then show ?thesis unfolding eq by blast
    qed
  qed
qed

lemma run_round_history:
  assumes "distinct (map node_id ns)"
    and "run_round ctx ns round_num st = (evs, Inr st')"
    and "n \<in> set ns"
  shows "\<exists>h0 rest u a.
            histories st (node_id n) = Some (h0 # rest) \<and>
            histories st' (node_id n) =
              Some (SystemMessage (system_prompt_of ctx n round_num) # rest @
                    [UserMessage u ''user'',
                     AssistantMessage a (label_of (ctx_labels ctx) (node_id n))])"
  using run_nodes_history [OF assms(1) assms(2) [unfolded run_round_def]] assms(3)
  by simp

lemma run_rounds_Suc_Inr:
  assumes "run_rounds ctx ns (Suc k) r st = (evs, Inr st')"
  shows "\<exists>st1 e1 e2. run_round ctx ns r st = (e1, Inr st1) \<and>
           run_rounds ctx ns k (r + 1) st1 = (e2, Inr st') \<and> evs = e1 @ e2"
  using assms by (auto split: sum.splits prod.splits)

text \<open>
  Some rounds in a row: the history of a node keeps what it held after its first entry,
  gets two turns per round behind it, and starts with the system message of the last
  round.
\<close>

lemma run_rounds_history:
  assumes "distinct (map node_id ns)" and "n \<in> set ns"
    and "histories st (node_id n) = Some (h0 # rest0)"
    and "run_rounds ctx ns k r st = (evs, Inr st')"
  shows "\<exists>new. histories st' (node_id n) =
             Some ((if k = 0 then h0
                    else SystemMessage (system_prompt_of ctx n (r + int k - 1))) # rest0 @ new) \<and>
           length new = 2 * k \<and> is_turns (label_of (ctx_labels ctx) (node_id n)) new"
  using assms(3,4)
proof (induction k arbitrary: r st h0 rest0 evs)
  case 0
  then show ?case by simp
next
  case (Suc k)
  from run_rounds_Suc_Inr [OF Suc.prems(2)] obtain st1 e1 e2
    where r1: "run_round ctx ns r st = (e1, Inr st1)"
      and rk: "run_rounds ctx ns k (r + 1) st1 = (e2, Inr st')"
    by blast
  from run_round_history [OF assms(1) r1 assms(2)] Suc.prems(1) obtain u a
    where h1: "histories st1 (node_id n) =
              Some (SystemMessage (system_prompt_of ctx n r) #
                    (rest0 @ [UserMessage u ''user'',
                     AssistantMessage a (label_of (ctx_labels ctx) (node_id n))]))"
    by auto
  from Suc.IH [OF h1 rk] obtain new
    where h': "histories st' (node_id n) =
             Some ((if k = 0 then SystemMessage (system_prompt_of ctx n r)
                    else SystemMessage (system_prompt_of ctx n (r + 1 + int k - 1))) #
                   (rest0 @ [UserMessage u ''user'',
                     AssistantMessage a (label_of (ctx_labels ctx) (node_id n))]) @ new)"
      and l: "length new = 2 * k"
      and t: "is_turns (label_of (ctx_labels ctx) (node_id n)) new"
    by blast
  let ?new = "[UserMessage u ''user'',
               AssistantMessage a (label_of (ctx_labels ctx) (node_id n))] @ new"
  have "histories st' (node_id n) =
             Some ((if Suc k = 0 then h0
                    else SystemMessage (system_prompt_of ctx n (r + int (Suc k) - 1))) #
                   rest0 @ ?new)"
    unfolding h' by (cases k) (simp_all add: algebra_simps)
  moreover have "length ?new = 2 * Suc k" using l by simp
  moreover have "is_turns (label_of (ctx_labels ctx) (node_id n)) ?new" using t by simp
  ultimately show ?case by blast
qed

lemma run_rounds_add:
  "run_rounds ctx ns (j + m) r st =
     (case run_rounds ctx ns j r st of
        (e1, Inl x) \<Rightarrow> (e1, Inl x)
      | (e1, Inr st1) \<Rightarrow>
          (case run_rounds ctx ns m (r + int j) st1 of (e2, res) \<Rightarrow> (e1 @ e2, res)))"
proof (induction j arbitrary: r st)
  case 0
  show ?case by (simp split: prod.splits)
next
  case (Suc j)
  show ?case
    by (simp add: Suc.IH algebra_simps split: prod.splits sum.splits)
qed

lemma init_histories_other:
  "k \<notin> node_id ` set ns \<Longrightarrow> init_histories ctx ns h k = h k"
  by (induction ns arbitrary: h) auto

lemma init_histories_node:
  "distinct (map node_id ns) \<Longrightarrow> n \<in> set ns \<Longrightarrow>
   init_histories ctx ns h (node_id n) = Some [SystemMessage (system_prompt_of ctx n 1)]"
proof (induction ns arbitrary: h)
  case Nil
  then show ?case by simp
next
  case (Cons n0 ns)
  show ?case
  proof (cases "n \<in> set ns")
    case True
    with Cons show ?thesis by simp
  next
    case False
    with Cons.prems have "n = n0" and "node_id n0 \<notin> node_id ` set ns" by auto
    then show ?thesis by (simp add: init_histories_other)
  qed
qed

text \<open>
  \<open>run_debate\<close> yields nothing for an empty node list; otherwise the topology resolver
  returns its maps and the rounds run from the initial state.
\<close>

lemma run_debate_rounds:
  "run_debate env [] edges rounds q gen
     = ([], Inr \<lparr>histories = Map.empty, responses_by_round = Map.empty\<rparr>)"
  "nodes \<noteq> [] \<Longrightarrow>
   \<exists>maps. build_neighbor_maps nodes edges = Inr maps \<and>
     run_debate env nodes edges rounds q gen =
       run_rounds (make_ctx env nodes maps rounds q gen) nodes (nat (max 1 rounds)) 1
         (init_state (make_ctx env nodes maps rounds q gen) nodes)"
proof -
  show "run_debate env [] edges rounds q gen
     = ([], Inr \<lparr>histories = Map.empty, responses_by_round = Map.empty\<rparr>)"
    by (simp add: run_debate_def)
  assume ne: "nodes \<noteq> []"
  from build_neighbor_maps_inv [of nodes edges] obtain maps
    where m: "build_neighbor_maps nodes edges = Inr maps" by blast
  with ne have "run_debate env nodes edges rounds q gen =
       run_rounds (make_ctx env nodes maps rounds q gen) nodes (nat (max 1 rounds)) 1
         (init_state (make_ctx env nodes maps rounds q gen) nodes)"
    by (simp add: run_debate_def Let_def make_ctx_def)
  with m show "\<exists>maps. build_neighbor_maps nodes edges = Inr maps \<and>
     run_debate env nodes edges rounds q gen =
       run_rounds (make_ctx env nodes maps rounds q gen) nodes (nat (max 1 rounds)) 1
         (init_state (make_ctx env nodes maps rounds q gen) nodes)"
    by blast
qed

text \<open>
  C9. Let the nodes have distinct ids and let the first \<open>R\<close> rounds complete. Then the
  history of every node is the system message built for round \<open>R\<close> (for round 1 when
  \<open>R = 0\<close>) followed by \<open>2 * R\<close> turns, user and assistant in alternation, so it holds
  \<open>1 + 2 * R\<close> messages; and after every earlier round \<open>j\<close> it was the system message
  built for round \<open>j\<close> followed by the first \<open>2 * j\<close> of these turns: a round replaces
  the entry at position 0, appends two turns and changes no other entry.
\<close>

theorem history_append_only:
  assumes "distinct (map node_id nodes)" and "n \<in> set nodes"
    and "run_rounds ctx nodes R 1 (init_state ctx nodes) = (evs, Inr st)"
  shows "\<exists>turns.
           histories st (node_id n) =
             Some (SystemMessage (system_prompt_of ctx n (max 1 (int R))) # turns) \<and>
           length (SystemMessage (system_prompt_of ctx n (max 1 (int R))) # turns) = 1 + 2 * R \<and>
           is_turns (label_of (ctx_labels ctx) (node_id n)) turns \<and>
           (\<forall>j \<le> R. \<exists>evs_j st_j.
              run_rounds ctx nodes j 1 (init_state ctx nodes) = (evs_j, Inr st_j) \<and>
              histories st_j (node_id n) =
                Some (SystemMessage (system_prompt_of ctx n (max 1 (int j))) # take (2 * j) turns))"
proof -
  let ?init = "init_state ctx nodes"
  let ?sys = "\<lambda>k. SystemMessage (system_prompt_of ctx n (max 1 (int k)))"
  have i: "histories ?init (node_id n) = Some (SystemMessage (system_prompt_of ctx n 1) # [])"
    by (simp add: init_state_def init_histories_node [OF assms(1,2)])
  have sys: "(if k = 0 then SystemMessage (system_prompt_of ctx n 1)
              else SystemMessage (system_prompt_of ctx n (1 + int k - 1))) = ?sys k" for k
    by (cases k) (simp_all add: max_def)
  from run_rounds_history [OF assms(1,2) i assms(3)] obtain turns
    where h: "histories st (node_id n) = Some (?sys R # turns)"
      and l: "length turns = 2 * R"
      and t: "is_turns (label_of (ctx_labels ctx) (node_id n)) turns"
    unfolding sys by auto
  have "\<exists>evs_j st_j.
              run_rounds ctx nodes j 1 ?init = (evs_j, Inr st_j) \<and>
              histories st_j (node_id n) = Some (?sys j # take (2 * j) turns)"
    if j: "j \<le> R" for j
  proof -
    from j have R: "R = j + (R - j)" by simp
    obtain e1 res where rj: "run_rounds ctx nodes j 1 ?init = (e1, res)"
      by (cases "run_rounds ctx nodes j 1 ?init")
    from assms(3) obtain st_j e2
      where sj: "res = Inr st_j"
        and rest: "run_rounds ctx nodes (R - j) (1 + int j) st_j = (e2, Inr st)"
      using run_rounds_add [of ctx nodes j "R - j" 1 ?init] rj
      unfolding R [symmetric]
      by (cases res) (auto split: prod.splits)
    from run_rounds_history [OF assms(1,2) i rj [unfolded sj]] obtain tj
      where hj: "histories st_j (node_id n) = Some (?sys j # tj)"
        and lj: "length tj = 2 * j"
      unfolding sys by auto
    from run_rounds_history [OF assms(1,2) hj rest] obtain new
      where "histories st (node_id n) =
               Some ((if R - j = 0 then ?sys j
                      else SystemMessage (system_prompt_of ctx n (1 + int j + int (R - j) - 1)))
                     # tj @ new)"
      by blast
    with h have "turns = tj @ new" by (simp split: if_splits)
    with lj have "take (2 * j) turns = tj" by simp
    with rj sj hj show ?thesis by simp
  qed
  with h l t show ?thesis by simp
qed

theorem history_append_only_witness:
  \<open>\<exists>evs st ctx turns.
     ctx = \<lparr>ctx_env = sample_env,
        ctx_question = ''Is X good?'', ctx_labels = [(''a'', ''Ann''), (''b'', ''Bob'')],
            ctx_outgoing = [''a'' \<mapsto> [''b''], ''b'' \<mapsto> []],
            ctx_incoming = [''a'' \<mapsto> [], ''b'' \<mapsto> [''a'']], ctx_rounds = 2,
            generate = (\<lambda>nid history.
              Inr ''I think X.\<newline>SUMMARY_JSON:\<newline>{"position": "X is good"}'')\<rparr> \<and>
     run_rounds ctx
       [\<lparr>node_id = ''a'', node_label = ''Ann'', node_systemPrompt = None\<rparr>,
        \<lparr>node_id = ''b'', node_label = ''Bob'', node_systemPrompt = None\<rparr>] 2 1
       (init_state ctx
          [\<lparr>node_id = ''a'', node_label = ''Ann'', node_systemPrompt = None\<rparr>,
           \<lparr>node_id = ''b'', node_label = ''Bob'', node_systemPrompt = None\<rparr>])
       = (evs, Inr st) \<and>
     histories st ''a'' =
       Some (SystemMessage
               (system_prompt_of ctx
                  \<lparr>node_id = ''a'', node_label = ''Ann'', node_systemPrompt = None\<rparr> 2) # turns) \<and>
     length turns = 4 \<and> is_turns ''Ann'' turns\<close>
proof -
  let ?e = sample_env
  let ?reply = \<open>''I think X.\<newline>SUMMARY_JSON:\<newline>{"position": "X is good"}''\<close>
  let ?labels = "[(''a'', ''Ann''), (''b'', ''Bob'')]"
  let ?ctx = "\<lparr>ctx_env = sample_env,
        ctx_question = ''Is X good?'', ctx_labels = ?labels,
        ctx_outgoing = [''a'' \<mapsto> [''b''], ''b'' \<mapsto> []],
        ctx_incoming = [''a'' \<mapsto> [], ''b'' \<mapsto> [''a'']], ctx_rounds = 2,
        generate = (\<lambda>nid history. Inr ?reply)\<rparr>"
  let ?a = "\<lparr>node_id = ''a'', node_label = ''Ann'', node_systemPrompt = None\<rparr>"
  let ?b = "\<lparr>node_id = ''b'', node_label = ''Bob'', node_systemPrompt = None\<rparr>"
  have p: "parse_summary_json ?e ?reply [''b''] ?labels 1
              = Inr (''I think X.'', ''X is good'', [''b'' \<mapsto> []])"
    "parse_summary_json ?e ?reply [] ?labels 1 = Inr (''I think X.'', ''X is good'', Map.empty)"
    "parse_summary_json ?e ?reply [''b''] ?labels 2
              = Inr (''I think X.'', ''X is good'', [''b'' \<mapsto> []])"
    "parse_summary_json ?e ?reply [] ?labels 2 = Inr (''I think X.'', ''X is good'', Map.empty)"
    by (simp_all add: parse_eval json_eval sample_env_def)
  have "\<exists>evs st. run_rounds ?ctx [?a, ?b] (Suc (Suc 0)) 1 (init_state ?ctx [?a, ?b]) = (evs, Inr st)"
    by (simp add: run_round_def debate_step_def Let_def neighbors_of_def init_state_def p)
  then obtain evs st
    where r: "run_rounds ?ctx [?a, ?b] 2 1 (init_state ?ctx [?a, ?b]) = (evs, Inr st)"
    by (auto simp: numeral_2_eq_2)
  have d: "distinct (map node_id [?a, ?b])" by simp
  have m: "?a \<in> set [?a, ?b]" by simp
  from history_append_only [OF d m r] obtain turns
    where "histories st ''a'' = Some (SystemMessage (system_prompt_of ?ctx ?a 2) # turns)"
      and "length turns = 4" and "is_turns ''Ann'' turns"
    by (auto simp: label_of_def)
  with r show ?thesis by blast
qed

end
